theory Spec2Isabelle
  imports Complex_Main
begin

section \<open>JavaScript values\<close>

text \<open>
  The route pipeline of \<^verbatim>\<open>server/controllers/tripController.js\<close> works on values that
  come out of \<^verbatim>\<open>JSON.parse\<close>. A finite JavaScript number is idealised as a real number
  (IEEE rounding is not modelled); the three non-finite numbers are kept apart because
  \<^verbatim>\<open>typeof\<close> calls them numbers while every comparison with a bound rejects them.
  An object is the list of its own properties, each key once.
\<close>

datatype jsval =
    JUndefined
  | JNull
  | JBool bool
  | JNum real
  | JNaN
  | JInf bool
  | JStr string
  | JArr "jsval list"
  | JObj "(string \<times> jsval) list"

datatype js_error = TypeError | Error string

text \<open>\<^verbatim>\<open>!v\<close> is false exactly for the truthy values.\<close>

fun truthy :: "jsval \<Rightarrow> bool" where
  "truthy JUndefined = False"
| "truthy JNull = False"
| "truthy (JBool b) = b"
| "truthy (JNum r) = (r \<noteq> 0)"
| "truthy JNaN = False"
| "truthy (JInf s) = True"
| "truthy (JStr s) = (s \<noteq> [])"
| "truthy (JArr xs) = True"
| "truthy (JObj kv) = True"

text \<open>
  \<^verbatim>\<open>v.k\<close> for a key that is no built-in property (\<^verbatim>\<open>lat\<close>, \<^verbatim>\<open>lng\<close>, \<^verbatim>\<open>waypoints\<close>):
  a TypeError on \<^verbatim>\<open>null\<close> and \<^verbatim>\<open>undefined\<close>, the stored value on an object that has
  the key, \<^verbatim>\<open>undefined\<close> everywhere else.
\<close>

fun get_prop :: "jsval \<Rightarrow> string \<Rightarrow> js_error + jsval" where
  "get_prop JUndefined k = Inl TypeError"
| "get_prop JNull k = Inl TypeError"
| "get_prop (JObj kv) k = (case map_of kv k of Some v \<Rightarrow> Inr v | None \<Rightarrow> Inr JUndefined)"
| "get_prop v k = Inr JUndefined"

text \<open>\<^verbatim>\<open>typeof v === 'number'\<close>\<close>

fun is_number :: "jsval \<Rightarrow> bool" where
  "is_number (JNum r) = True"
| "is_number JNaN = True"
| "is_number (JInf s) = True"
| "is_number v = False"

text \<open>\<^verbatim>\<open>Math.abs(v) <= b\<close> and \<^verbatim>\<open>Math.abs(v) < b\<close> for a value already known to be a
  number: NaN and the infinities fail both.\<close>

fun abs_le :: "jsval \<Rightarrow> real \<Rightarrow> bool" where
  "abs_le (JNum r) b = (\<bar>r\<bar> \<le> b)"
| "abs_le v b = False"

fun abs_lt :: "jsval \<Rightarrow> real \<Rightarrow> bool" where
  "abs_lt (JNum r) b = (\<bar>r\<bar> < b)"
| "abs_lt v b = False"

section \<open>Geometry utilities\<close>

record point =
  lat :: real
  lng :: real

definition toRad :: "real \<Rightarrow> real" where
  "toRad d = (d * pi) / 180"

text \<open>A position of the routing service is \<^verbatim>\<open>[lon, lat]\<close> (an elevation that may follow is
  never read).\<close>

type_synonym lonlat = "real \<times> real"

definition haversineMetersLonLat :: "lonlat \<Rightarrow> lonlat \<Rightarrow> real" where
  "haversineMetersLonLat a b =
     (let lon1 = fst a; lat1 = snd a;
          lon2 = fst b; lat2 = snd b;
          R = 6371000;
          dLat = toRad (lat2 - lat1);
          dLon = toRad (lon2 - lon1);
          la1 = toRad lat1; la2 = toRad lat2;
          h = (sin (dLat / 2))\<^sup>2 + cos la1 * cos la2 * (sin (dLon / 2))\<^sup>2
      in 2 * R * arcsin (sqrt h))"

text \<open>The angle of \<^verbatim>\<open>isStraightLine\<close> at one interior point, in degrees; \<^verbatim>\<open>None\<close> when
  one of the two segments has length zero (the loop's \<^verbatim>\<open>continue\<close>).\<close>

definition turn_angle :: "point \<Rightarrow> point \<Rightarrow> point \<Rightarrow> real option" where
  "turn_angle prev cur nxt =
     (let v1x = lat cur - lat prev; v1y = lng cur - lng prev;
          v2x = lat nxt - lat cur; v2y = lng nxt - lng cur;
          len1 = sqrt (v1x\<^sup>2 + v1y\<^sup>2);
          len2 = sqrt (v2x\<^sup>2 + v2y\<^sup>2)
      in if len1 = 0 \<or> len2 = 0 then None
         else let dot = v1x * v2x + v1y * v2y;
                  cosTheta = dot / (len1 * len2)
              in Some (arccos (max (-1) (min 1 cosTheta)) * (180 / pi)))"

text \<open>The loop over the interior points, carrying \<^verbatim>\<open>(straightAngles, totalAngles)\<close>.\<close>

fun angle_loop :: "point list \<Rightarrow> nat \<times> nat \<Rightarrow> nat \<times> nat" where
  "angle_loop (prev # cur # nxt # rest) (straightAngles, totalAngles) =
     (case turn_angle prev cur nxt of
        None \<Rightarrow> angle_loop (cur # nxt # rest) (straightAngles, totalAngles)
      | Some angle \<Rightarrow>
          angle_loop (cur # nxt # rest)
            (if angle > 170 then straightAngles + 1 else straightAngles, totalAngles + 1))"
| "angle_loop ps acc = acc"

definition isStraightLine :: "point list \<Rightarrow> bool" where
  "isStraightLine points =
     (if length points < 3 then False
      else (case angle_loop points (0, 0) of
              (straightAngles, totalAngles) \<Rightarrow>
                totalAngles > 0 \<and> real straightAngles / real totalAngles > 0.7))"

section \<open>Waypoint validation\<close>

text \<open>The \<^verbatim>\<open>isValid\<close> of the \<^verbatim>\<open>every\<close> callback. \<^verbatim>\<open>typeof wp.lat\<close> is read first, so a
  \<^verbatim>\<open>null\<close> or \<^verbatim>\<open>undefined\<close> entry raises before anything else is looked at.\<close>

definition wp_isValid :: "jsval \<Rightarrow> js_error + bool" where
  "wp_isValid wp =
     (case get_prop wp ''lat'' of
        Inl e \<Rightarrow> Inl e
      | Inr vlat \<Rightarrow>
          (case get_prop wp ''lng'' of
             Inl e \<Rightarrow> Inl e
           | Inr vlng \<Rightarrow>
               Inr (is_number vlat \<and> is_number vlng \<and> abs_le vlat 90 \<and> abs_le vlng 180 \<and>
                    \<not> (abs_lt vlat 0.5 \<and> abs_lt vlng 0.5))))"

text \<open>\<^verbatim>\<open>waypoints.every(...)\<close>: stops at the first entry whose callback is false.\<close>

fun every_valid :: "jsval list \<Rightarrow> js_error + bool" where
  "every_valid [] = Inr True"
| "every_valid (wp # rest) =
     (case wp_isValid wp of
        Inl e \<Rightarrow> Inl e
      | Inr ok \<Rightarrow> if ok then every_valid rest else Inr False)"

text \<open>The numbers \<^verbatim>\<open>isStraightLine\<close> reads from a waypoint. It runs only after
  \<^verbatim>\<open>every\<close> has found both fields to be finite numbers (lemma \<open>every_valid_fields\<close>), so
  the default is never read.\<close>

definition field_num :: "jsval \<Rightarrow> string \<Rightarrow> real" where
  "field_num wp k = (case get_prop wp k of Inr (JNum r) \<Rightarrow> r | _ \<Rightarrow> 0)"

definition point_of :: "jsval \<Rightarrow> point" where
  "point_of wp = \<lparr> lat = field_num wp ''lat'', lng = field_num wp ''lng'' \<rparr>"

fun isWaypointsValid :: "jsval \<Rightarrow> js_error + bool" where
  "isWaypointsValid (JArr waypoints) =
     (if length waypoints < 3 then Inr False
      else (case every_valid waypoints of
              Inl e \<Rightarrow> Inl e
            | Inr allValid \<Rightarrow>
                if \<not> allValid then Inr False
                else Inr (\<not> isStraightLine (map point_of waypoints))))"
| "isWaypointsValid v = Inr False"

section \<open>Route generation orchestrator\<close>

text \<open>The condition \<^verbatim>\<open>waypointsResponse && waypointsResponse.waypoints &&
  isWaypointsValid(waypointsResponse.waypoints)\<close>, as a truth value.\<close>

definition proposal_ok :: "jsval \<Rightarrow> js_error + bool" where
  "proposal_ok waypointsResponse =
     (if \<not> truthy waypointsResponse then Inr False
      else (case get_prop waypointsResponse ''waypoints'' of
              Inl e \<Rightarrow> Inl e
            | Inr w \<Rightarrow> if \<not> truthy w then Inr False else isWaypointsValid w))"

text \<open>What \<^verbatim>\<open>generateRoute\<close> does to the outside, in order: a call of the proposer with
  its retry flag, a call of the synthesizer, a \<^verbatim>\<open>setTimeout\<close> wait in milliseconds.\<close>

datatype gr_event = Propose nat bool | Synthesize nat | Sleep nat

definition maxRetries :: nat where
  "maxRetries = 3"

text \<open>
  The \<^verbatim>\<open>for\<close> loop of \<^verbatim>\<open>generateRoute\<close> from a given attempt on. The two awaited calls
  are parameters: \<open>proposer attempt isRetry\<close> is what \<^verbatim>\<open>generateRouteWithAI\<close> resolves to
  at that attempt, \<open>synthesizer attempt waypoints\<close> is the route of
  \<^verbatim>\<open>generateRouteWithOpenRouteService\<close> or the message of the error it throws. The result
  is the list of events and either the thrown error or the returned route.
\<close>

function gr_loop ::
  "(nat \<Rightarrow> bool \<Rightarrow> jsval) \<Rightarrow> (nat \<Rightarrow> jsval \<Rightarrow> string + 'r) \<Rightarrow> nat
     \<Rightarrow> gr_event list \<times> (js_error + 'r)" where
  "gr_loop proposer synthesizer attempt =
     (if attempt \<le> maxRetries then
        (let isRetry = attempt > 1;
             waypointsResponse = proposer attempt isRetry
         in case proposal_ok waypointsResponse of
              Inl e \<Rightarrow> ([Propose attempt isRetry], Inl e)
            | Inr True \<Rightarrow>
                (case get_prop waypointsResponse ''waypoints'' of
                   Inl e \<Rightarrow> ([Propose attempt isRetry], Inl e)
                 | Inr w \<Rightarrow>
                     (case synthesizer attempt w of
                        Inr route \<Rightarrow> ([Propose attempt isRetry, Synthesize attempt], Inr route)
                      | Inl orsMessage \<Rightarrow>
                          if attempt < maxRetries then
                            (case gr_loop proposer synthesizer (attempt + 1) of
                               (evs, res) \<Rightarrow>
                                 ([Propose attempt isRetry, Synthesize attempt, Sleep 1000] @ evs, res))
                          else ([Propose attempt isRetry, Synthesize attempt],
                                Inl (Error (''Failed to generate route: '' @ orsMessage)))))
            | Inr False \<Rightarrow>
                (case gr_loop proposer synthesizer (attempt + 1) of
                   (evs, res) \<Rightarrow>
                     ([Propose attempt isRetry] @
                      (if attempt < maxRetries then [Sleep 1000] else []) @ evs, res)))
      else ([], Inl (Error ''AI failed to generate realistic waypoints after multiple attempts.'')))"
  by pat_completeness auto
termination
  by (relation "measure (\<lambda>(p, s, attempt). maxRetries + 1 - attempt)") auto

declare gr_loop.simps [simp del]

definition generateRoute ::
  "(nat \<Rightarrow> bool \<Rightarrow> jsval) \<Rightarrow> (nat \<Rightarrow> jsval \<Rightarrow> string + 'r)
     \<Rightarrow> gr_event list \<times> (js_error + 'r)" where
  "generateRoute proposer synthesizer = gr_loop proposer synthesizer 1"

section \<open>Waypoint proposer\<close>

text \<open>
  A response text is the list of its UTF-16 code units, as numbers: that is what
  \<^verbatim>\<open>trim\<close>, \<^verbatim>\<open>match\<close> and \<^verbatim>\<open>replace\<close> (with patterns that have no \<^verbatim>\<open>u\<close> flag) work on.
  \<open>units\<close> gives the code units of a text written in ASCII.
\<close>

type_synonym jstext = "nat list"

definition units :: "string \<Rightarrow> jstext" where
  "units s = map of_char s"

text \<open>
  The white space of \<^verbatim>\<open>\s\<close> and of \<^verbatim>\<open>String.prototype.trim\<close>, the same set for both:
  tab, line feed, vertical tab, form feed, carriage return, space, no-break space (U+00A0),
  U+1680, U+2000 to U+200A, the line and paragraph separators U+2028 and U+2029, U+202F,
  U+205F, U+3000 and the byte order mark U+FEFF.
\<close>

definition js_space :: "nat \<Rightarrow> bool" where
  "js_space u =
     (u \<in> set [0x09, 0x0A, 0x0B, 0x0C, 0x0D, 0x20, 0xA0, 0x1680, 0x2028, 0x2029, 0x202F,
                0x205F, 0x3000, 0xFEFF]
      \<or> (0x2000 \<le> u \<and> u \<le> 0x200A))"

definition trim :: "jstext \<Rightarrow> jstext" where
  "trim s = rev (dropWhile js_space (rev (dropWhile js_space s)))"

text \<open>The code units of the opening brace, the closing brace, the closing bracket, the
  comma and the backtick.\<close>

definition lbrace :: nat where "lbrace = 0x7B"
definition rbrace :: nat where "rbrace = 0x7D"
definition rbracket :: nat where "rbracket = 0x5D"
definition comma :: nat where "comma = 0x2C"
definition backtick :: nat where "backtick = 0x60"

text \<open>\<^verbatim>\<open>content.match(/\{[\s\S]*\}/)\<close>: the match starts at the first opening brace and,
  being greedy, ends at the last closing brace after it; there is none when no closing
  brace follows the first opening one.\<close>

definition match_braces :: "jstext \<Rightarrow> jstext option" where
  "match_braces content =
     (let from_open = dropWhile (\<lambda>c. c \<noteq> lbrace) content;
          upto_close = rev (dropWhile (\<lambda>c. c \<noteq> rbrace) (rev from_open))
      in if upto_close = [] then None else Some upto_close)"

text \<open>\<^verbatim>\<open>s.replace(/LIT\s*/g, '')\<close> for a literal text \<open>lit\<close>: every occurrence of the
  literal, with the white space after it, is removed, scanning from the left.\<close>

function remove_with_space :: "jstext \<Rightarrow> jstext \<Rightarrow> jstext" where
  "remove_with_space lit [] = []"
| "remove_with_space lit (c # cs) =
     (if lit \<noteq> [] \<and> take (length lit) (c # cs) = lit
      then remove_with_space lit (dropWhile js_space (drop (length lit) (c # cs)))
      else c # remove_with_space lit cs)"
  by pat_completeness auto
termination
proof (relation "measure (\<lambda>(lit, s). length s)")
  show "wf (measure (\<lambda>(lit, s). length s))" by simp
next
  fix lit :: jstext and c cs
  assume "lit \<noteq> [] \<and> take (length lit) (c # cs) = lit"
  then have "0 < length lit" by simp
  then have "length (drop (length lit) (c # cs)) < length (c # cs)" by simp
  moreover have "length (dropWhile js_space (drop (length lit) (c # cs)))
      \<le> length (drop (length lit) (c # cs))"
    by (rule length_dropWhile_le)
  ultimately show "((lit, dropWhile js_space (drop (length lit) (c # cs))), (lit, c # cs))
      \<in> measure (\<lambda>(lit, s). length s)"
    by simp
next
  fix lit :: jstext and c :: nat and cs :: jstext
  show "((lit, cs), (lit, c # cs)) \<in> measure (\<lambda>(lit, s). length s)" by simp
qed

text \<open>\<^verbatim>\<open>s.replace(/,\s*}/g, '}')\<close> and \<^verbatim>\<open>s.replace(/,\s*]/g, ']')\<close>, for the closing
  character \<open>cl\<close> (no white space): a comma followed by white space and the closing
  character is replaced by the closing character alone, scanning from the left.\<close>

function drop_trailing_comma :: "nat \<Rightarrow> jstext \<Rightarrow> jstext" where
  "drop_trailing_comma cl [] = []"
| "drop_trailing_comma cl (c # cs) =
     (if c = comma \<and> dropWhile js_space cs \<noteq> [] \<and> hd (dropWhile js_space cs) = cl
      then cl # drop_trailing_comma cl (tl (dropWhile js_space cs))
      else c # drop_trailing_comma cl cs)"
  by pat_completeness auto
termination
proof (relation "measure (\<lambda>(cl, s). length s)")
  show "wf (measure (\<lambda>(cl, s). length s))" by simp
next
  fix cl c :: nat and cs
  have "length (tl (dropWhile js_space cs)) \<le> length (dropWhile js_space cs)" by simp
  also have "\<dots> \<le> length cs" by (rule length_dropWhile_le)
  finally show "((cl, tl (dropWhile js_space cs)), (cl, c # cs)) \<in> measure (\<lambda>(cl, s). length s)"
    by simp
next
  fix cl c :: nat and cs
  show "((cl, cs), (cl, c # cs)) \<in> measure (\<lambda>(cl, s). length s)" by simp
qed

declare remove_with_space.simps [simp del]
declare drop_trailing_comma.simps [simp del]

definition fence :: jstext where
  "fence = [backtick, backtick, backtick]"

text \<open>The \<^verbatim>\<open>fixedContent\<close> of the third parsing method.\<close>

definition fixedContent :: "jstext \<Rightarrow> jstext" where
  "fixedContent content =
     drop_trailing_comma rbracket
       (drop_trailing_comma rbrace
          (remove_with_space fence
             (remove_with_space (fence @ units ''json'') content)))"

text \<open>One awaited completion of the language model: the call (or the reading of its
  response) throws, or it yields \<^verbatim>\<open>choices[0]?.message?.content\<close>, which may be missing.\<close>

datatype llm_reply = LlmThrows | LlmContent "jstext option"

datatype ai_event = Generate nat bool | ParseJSON jstext | Wait nat

definition retryDelay :: nat where
  "retryDelay = 1000"

text \<open>
  The three parsing methods applied to one non-empty content, with the texts handed to
  \<^verbatim>\<open>JSON.parse\<close> in order. \<open>parse\<close> stands for \<^verbatim>\<open>JSON.parse\<close>: \<open>None\<close> when it throws.
\<close>

definition parse_methods ::
  "(jstext \<Rightarrow> jsval option) \<Rightarrow> jstext \<Rightarrow> ai_event list \<times> jsval option" where
  "parse_methods parse content =
     (case parse content of
        Some routeData \<Rightarrow> ([ParseJSON content], Some routeData)
      | None \<Rightarrow>
          (let second =
                 (case match_braces content of
                    None \<Rightarrow> ([], None)
                  | Some jsonMatch \<Rightarrow> ([ParseJSON jsonMatch], parse jsonMatch))
           in case snd second of
                Some routeData \<Rightarrow> ([ParseJSON content] @ fst second, Some routeData)
              | None \<Rightarrow>
                  ([ParseJSON content] @ fst second @ [ParseJSON (fixedContent content)],
                   parse (fixedContent content))))"

text \<open>The \<^verbatim>\<open>for\<close> loop of \<^verbatim>\<open>generateRouteWithAI\<close> from a given attempt on; \<open>llm attempt\<close>
  is the completion awaited at that attempt. The result is the list of events and the
  returned value (\<^verbatim>\<open>null\<close> when every attempt failed).\<close>

function gai_loop ::
  "(nat \<Rightarrow> llm_reply) \<Rightarrow> (jstext \<Rightarrow> jsval option) \<Rightarrow> bool \<Rightarrow> nat \<Rightarrow> ai_event list \<times> jsval" where
  "gai_loop llm parse isRetry attempt =
     (if attempt \<le> maxRetries then
        (let pause = (if attempt < maxRetries then [Wait retryDelay] else [])
         in case llm attempt of
              LlmThrows \<Rightarrow>
                (case gai_loop llm parse isRetry (attempt + 1) of
                   (evs, res) \<Rightarrow> ([Generate attempt isRetry] @ pause @ evs, res))
            | LlmContent c \<Rightarrow>
                (let content = (case c of None \<Rightarrow> [] | Some s \<Rightarrow> trim s)
                 in if content = [] then
                      (if attempt < maxRetries then
                         (case gai_loop llm parse isRetry (attempt + 1) of
                            (evs, res) \<Rightarrow> ([Generate attempt isRetry] @ pause @ evs, res))
                       else ([Generate attempt isRetry], JNull))
                    else
                      (case parse_methods parse content of
                         (pevs, Some routeData) \<Rightarrow> ([Generate attempt isRetry] @ pevs, routeData)
                       | (pevs, None) \<Rightarrow>
                           (case gai_loop llm parse isRetry (attempt + 1) of
                              (evs, res) \<Rightarrow>
                                ([Generate attempt isRetry] @ pevs @ pause @ evs, res)))))
      else ([], JNull))"
  by pat_completeness auto
termination
  by (relation "measure (\<lambda>(l, p, r, attempt). maxRetries + 1 - attempt)") auto

declare gai_loop.simps [simp del]

definition generateRouteWithAI ::
  "(nat \<Rightarrow> llm_reply) \<Rightarrow> (jstext \<Rightarrow> jsval option) \<Rightarrow> bool \<Rightarrow> ai_event list \<times> jsval" where
  "generateRouteWithAI llm parse isRetry = gai_loop llm parse isRetry 1"

text \<open>One pass of the loop body of \<^verbatim>\<open>generateRouteWithAI\<close>, the waiting left out: the texts
  handed to \<^verbatim>\<open>JSON.parse\<close> and the value the pass returns, if it returns one. The pass
  returns nothing when the completion throws, when the content is missing or empty after
  \<^verbatim>\<open>trim\<close>, and when all three parsing methods fail.\<close>

definition attempt_outcome ::
  "(nat \<Rightarrow> llm_reply) \<Rightarrow> (jstext \<Rightarrow> jsval option) \<Rightarrow> nat \<Rightarrow> ai_event list \<times> jsval option" where
  "attempt_outcome llm parse attempt =
     (case llm attempt of
        LlmThrows \<Rightarrow> ([], None)
      | LlmContent c \<Rightarrow>
          (let content = (case c of None \<Rightarrow> [] | Some s \<Rightarrow> trim s)
           in if content = [] then ([], None) else parse_methods parse content))"

section \<open>Road and trail snapper\<close>

text \<open>What an \<^verbatim>\<open>axios\<close> call throws: \<^verbatim>\<open>err.response?.status\<close>,
  \<^verbatim>\<open>err.response?.data?.error?.message || ''\<close> and \<^verbatim>\<open>err.message\<close>.\<close>

record http_error =
  status :: "nat option"
  api_message :: string
  message :: string

text \<open>An entry of the snap reply's \<^verbatim>\<open>locations\<close>: \<^verbatim>\<open>null\<close>, or an object whose
  \<^verbatim>\<open>location\<close> is a position or is missing.\<close>

datatype snap_item = NullItem | Item "lonlat option"

record snap_request =
  sr_profile :: string
  sr_locations :: "lonlat list"
  sr_radius :: nat

definition profile_of :: "string \<Rightarrow> string" where
  "profile_of tripType = (if tripType = ''cycling'' then ''cycling-regular'' else ''foot-hiking'')"

definition snap_request_of :: "point list \<Rightarrow> string \<Rightarrow> snap_request" where
  "snap_request_of waypoints tripType =
     \<lparr> sr_profile = profile_of tripType,
       sr_locations = map (\<lambda>wp. (lng wp, lat wp)) waypoints,
       sr_radius = (if tripType = ''cycling'' then 120 else 200) \<rparr>"

text \<open>\<^verbatim>\<open>(data?.locations || []).map(item => item?.location || null)\<close>; the reply's
  \<^verbatim>\<open>locations\<close> may be missing.\<close>

definition snapped_of :: "snap_item list option \<Rightarrow> lonlat option list" where
  "snapped_of data =
     map (\<lambda>item. case item of NullItem \<Rightarrow> None | Item location \<Rightarrow> location)
       (case data of None \<Rightarrow> [] | Some locations \<Rightarrow> locations)"

text \<open>The body of the \<^verbatim>\<open>try\<close>: the thrown error's message on the left. Where the
  snapped list is returned every entry of it is a position.\<close>

definition snap_try ::
  "(snap_request \<Rightarrow> http_error + snap_item list option) \<Rightarrow> point list \<Rightarrow> string
     \<Rightarrow> string + lonlat list" where
  "snap_try snap_service waypoints tripType =
     (case snap_service (snap_request_of waypoints tripType) of
        Inl err \<Rightarrow> Inl (message err)
      | Inr data \<Rightarrow>
          (let snapped = snapped_of data
           in if length snapped \<noteq> length waypoints \<or> (\<exists>p \<in> set snapped. p = None)
              then Inl ''Some waypoints failed to snap (off network / over water).''
              else Inr (map the snapped)))"

text \<open>\<^verbatim>\<open>snapWaypoints\<close>: whatever the \<^verbatim>\<open>try\<close> throws is replaced by
  \<^verbatim>\<open>new Error('Snap failed')\<close>. The left summand is the message of the thrown error.\<close>

definition snapWaypoints ::
  "(snap_request \<Rightarrow> http_error + snap_item list option) \<Rightarrow> point list \<Rightarrow> string
     \<Rightarrow> string + lonlat list" where
  "snapWaypoints snap_service waypoints tripType =
     (case snap_try snap_service waypoints tripType of
        Inl error \<Rightarrow> Inl ''Snap failed''
      | Inr snapped \<Rightarrow> Inr snapped)"

section \<open>Route synthesizer\<close>

text \<open>The part of a directions reply that is read: \<^verbatim>\<open>properties.summary?.distance\<close>,
  \<^verbatim>\<open>properties.summary?.duration\<close>, \<^verbatim>\<open>properties.ascent\<close> and \<^verbatim>\<open>properties.descent\<close>
  (each may be missing) and \<^verbatim>\<open>geometry.coordinates\<close>.\<close>

record props =
  summary_distance :: "real option"
  summary_duration :: "real option"
  ascent :: "real option"
  descent :: "real option"

record feature =
  geometry :: "lonlat list"
  properties :: props

text \<open>The request body; \<^verbatim>\<open>instructions\<close>, \<^verbatim>\<open>elevation\<close>, \<^verbatim>\<open>extra_info\<close> and
  \<^verbatim>\<open>geometry_simplify\<close> are the same in every request and left out.\<close>

record directions_request =
  dr_profile :: string
  dr_coordinates :: "lonlat list"
  avoid_ferries :: bool

text \<open>The two services, and the test
  \<^verbatim>\<open>/Unknown parameter.*(options|avoid_features)/i.test(msg)\<close> on a message.\<close>

record services =
  snap_service :: "snap_request \<Rightarrow> http_error + snap_item list option"
  directions_service :: "directions_request \<Rightarrow> http_error + feature list"
  unknown_parameter :: "string \<Rightarrow> bool"

datatype ors_event = SnapCall snap_request | DirectionsCall directions_request

text \<open>A number of the result that may be \<^verbatim>\<open>NaN\<close>: reading \<^verbatim>\<open>cum[splitIdx]\<close> past the end
  of the array gives \<^verbatim>\<open>undefined\<close>, and all arithmetic on it gives \<^verbatim>\<open>NaN\<close>.\<close>

datatype jsnum = Fin real | NaN

text \<open>A binary arithmetic operation (\<^verbatim>\<open>+ - *\<close>, \<^verbatim>\<open>/\<close> by a non-zero number,
  \<^verbatim>\<open>Math.max\<close>, \<^verbatim>\<open>Math.min\<close>) on such numbers.\<close>

fun num2 :: "(real \<Rightarrow> real \<Rightarrow> real) \<Rightarrow> jsnum \<Rightarrow> jsnum \<Rightarrow> jsnum" where
  "num2 f (Fin a) (Fin b) = Fin (f a b)"
| "num2 f a b = NaN"

text \<open>\<^verbatim>\<open>a || b\<close> on finite numbers, and on a property that may be missing.\<close>

definition js_or :: "real \<Rightarrow> real \<Rightarrow> real" where
  "js_or a b = (if a \<noteq> 0 then a else b)"

definition opt_or :: "real option \<Rightarrow> real \<Rightarrow> real" where
  "opt_or a b = (case a of None \<Rightarrow> b | Some x \<Rightarrow> js_or x b)"

record route_point = point +
  day :: nat
  order :: nat

record daily_route =
  dr_day :: nat
  distance :: jsnum
  duration :: jsnum
  elevation_gain :: jsnum
  elevation_loss :: jsnum
  dr_points :: "route_point list"

record route_result =
  rr_geometry :: "lonlat list"
  points :: "route_point list"
  dailyRoutes :: "daily_route list"
  totalDistance :: real
  totalDuration :: real
  totalElevation_gain :: real
  totalElevation_loss :: real

text \<open>Loop closure: \<^verbatim>\<open>if (tripType === 'cycling' && coordinates.length > 1) { ... if (d > 100)
  coordinates.push(start) }\<close>.\<close>

definition close_loop :: "string \<Rightarrow> lonlat list \<Rightarrow> lonlat list" where
  "close_loop tripType coordinates =
     (if tripType = ''cycling'' \<and> length coordinates > 1 then
        (let start = coordinates ! 0;
             last_c = coordinates ! (length coordinates - 1);
             d = haversineMetersLonLat start last_c
         in if d > 100 then coordinates @ [start] else coordinates)
      else coordinates)"

text \<open>The array \<^verbatim>\<open>cum\<close>: \<^verbatim>\<open>[0]\<close>, then one entry for each vertex after the first.\<close>

fun cum_from :: "real \<Rightarrow> lonlat \<Rightarrow> lonlat list \<Rightarrow> real list" where
  "cum_from acc prv [] = []"
| "cum_from acc prv (c # cs) =
     (acc + haversineMetersLonLat prv c) # cum_from (acc + haversineMetersLonLat prv c) c cs"

definition cumulative :: "lonlat list \<Rightarrow> real list" where
  "cumulative coords = 0 # (case coords of [] \<Rightarrow> [] | c # cs \<Rightarrow> cum_from 0 c cs)"

text \<open>\<^verbatim>\<open>Array.prototype.findIndex\<close>: the first index whose element passes, or \<open>-1\<close>.\<close>

fun findIndex_from :: "nat \<Rightarrow> ('a \<Rightarrow> bool) \<Rightarrow> 'a list \<Rightarrow> int" where
  "findIndex_from i P [] = - 1"
| "findIndex_from i P (x # xs) = (if P x then int i else findIndex_from (Suc i) P xs)"

definition findIndex :: "('a \<Rightarrow> bool) \<Rightarrow> 'a list \<Rightarrow> int" where
  "findIndex P xs = findIndex_from 0 P xs"

definition totalGeomMeters :: "lonlat list \<Rightarrow> props \<Rightarrow> real" where
  "totalGeomMeters coords ps = js_or (last (cumulative coords)) (opt_or (summary_distance ps) 0)"

text \<open>\<^verbatim>\<open>let splitIdx = Math.max(1, cum.findIndex(v => v >= totalGeomMeters / 2));
  if (splitIdx === -1) splitIdx = Math.floor(coords.length / 2);\<close>\<close>

definition splitIdx :: "lonlat list \<Rightarrow> props \<Rightarrow> int" where
  "splitIdx coords ps =
     (let s = max 1 (findIndex (\<lambda>v. v \<ge> totalGeomMeters coords ps / 2) (cumulative coords))
      in if s = - 1 then int (length coords div 2) else s)"

text \<open>The loop that builds \<^verbatim>\<open>points\<close>, from index \<open>i\<close> on; \<^verbatim>\<open>order\<close> counts with it.\<close>

fun points_from :: "string \<Rightarrow> int \<Rightarrow> nat \<Rightarrow> lonlat list \<Rightarrow> route_point list" where
  "points_from tripType sp i [] = []"
| "points_from tripType sp i (c # cs) =
     \<lparr> lat = snd c, lng = fst c,
       day = (if tripType = ''cycling'' then (if int i \<le> sp then 1 else 2) else 1),
       order = i \<rparr> # points_from tripType sp (Suc i) cs"

text \<open>\<^verbatim>\<open>cum[splitIdx]\<close>, \<^verbatim>\<open>undefined\<close> past the end.\<close>

definition cum_at :: "real list \<Rightarrow> int \<Rightarrow> jsnum" where
  "cum_at cum i = (if 0 \<le> i \<and> nat i < length cum then Fin (cum ! nat i) else NaN)"

text \<open>Everything after the reply has been validated: the day split and the result.\<close>

definition build_route :: "feature \<Rightarrow> string \<Rightarrow> route_result" where
  "build_route ft tripType =
     (let coords = geometry ft;
          ps = properties ft;
          cum = cumulative coords;
          sp = splitIdx coords ps;
          pts = points_from tripType sp 0 coords;
          totalMeters = opt_or (summary_distance ps) (totalGeomMeters coords ps);
          totalSec = opt_or (summary_duration ps) 0;
          day1Meters = (if tripType = ''cycling'' then cum_at cum sp else Fin totalMeters);
          day2Meters = (if tripType = ''cycling'' then num2 (-) (Fin totalMeters) day1Meters else Fin 0);
          day1Frac = num2 max (Fin 0) (num2 min (Fin 1) (num2 (/) day1Meters (Fin (max totalMeters 1))));
          day2Frac = num2 (-) (Fin 1) day1Frac;
          gain = opt_or (ascent ps) 0;
          loss = opt_or (descent ps) 0
      in \<lparr> rr_geometry = coords,
           points = pts,
           dailyRoutes =
             (if tripType = ''cycling'' then
                [\<lparr> dr_day = 1,
                    distance = num2 (/) day1Meters (Fin 1000),
                    duration = num2 (/) (num2 (*) (Fin totalSec) day1Frac) (Fin 3600),
                    elevation_gain = num2 (*) (Fin gain) day1Frac,
                    elevation_loss = num2 (*) (Fin loss) day1Frac,
                    dr_points = filter (\<lambda>p. day p = 1) pts \<rparr>,
                 \<lparr> dr_day = 2,
                    distance = num2 (/) day2Meters (Fin 1000),
                    duration = num2 (/) (num2 (*) (Fin totalSec) day2Frac) (Fin 3600),
                    elevation_gain = num2 (*) (Fin gain) day2Frac,
                    elevation_loss = num2 (*) (Fin loss) day2Frac,
                    dr_points = filter (\<lambda>p. day p = 2) pts \<rparr>]
              else
                [\<lparr> dr_day = 1,
                    distance = Fin (totalMeters / 1000),
                    duration = Fin (totalSec / 3600),
                    elevation_gain = Fin gain,
                    elevation_loss = Fin loss,
                    dr_points = pts \<rparr>]),
           totalDistance = totalMeters / 1000,
           totalDuration = totalSec / 3600,
           totalElevation_gain = gain,
           totalElevation_loss = loss \<rparr>)"

text \<open>The directions request, with the retry without \<^verbatim>\<open>options\<close> when the service
  rejects them; the thrown error's message on the left.\<close>

definition request_directions ::
  "services \<Rightarrow> directions_request \<Rightarrow> ors_event list \<times> (string + feature list)" where
  "request_directions sv baseBody =
     (let bodyWithAvoid = baseBody\<lparr> avoid_ferries := True \<rparr>
      in case directions_service sv bodyWithAvoid of
           Inr features \<Rightarrow> ([DirectionsCall bodyWithAvoid], Inr features)
         | Inl err \<Rightarrow>
             (let isUnknownParam = (status err = Some 400 \<and> unknown_parameter sv (api_message err))
              in if isUnknownParam then
                   (case directions_service sv baseBody of
                      Inr features \<Rightarrow>
                        ([DirectionsCall bodyWithAvoid, DirectionsCall baseBody], Inr features)
                    | Inl err2 \<Rightarrow>
                        ([DirectionsCall bodyWithAvoid, DirectionsCall baseBody], Inl (message err2)))
                 else ([DirectionsCall bodyWithAvoid], Inl (message err))))"

text \<open>\<^verbatim>\<open>generateRouteWithOpenRouteService\<close> on validated waypoints: the service calls made,
  in order, and the route or the message of the thrown error.\<close>

definition generateRouteWithOpenRouteService ::
  "services \<Rightarrow> point list \<Rightarrow> string \<Rightarrow> ors_event list \<times> (string + route_result)" where
  "generateRouteWithOpenRouteService sv waypoints tripType =
     (let failed = (\<lambda>m. Inl (''Failed to generate route with OpenRouteService: '' @ m));
          snapCall = SnapCall (snap_request_of waypoints tripType)
      in case snapWaypoints (snap_service sv) waypoints tripType of
           Inl m \<Rightarrow> ([snapCall], failed m)
         | Inr snapped \<Rightarrow>
             (let baseBody = \<lparr> dr_profile = profile_of tripType,
                               dr_coordinates = close_loop tripType snapped,
                               avoid_ferries = False \<rparr>
              in case request_directions sv baseBody of
                   (calls, Inl m) \<Rightarrow> (snapCall # calls, failed m)
                 | (calls, Inr features) \<Rightarrow>
                     (case features of
                        [] \<Rightarrow> (snapCall # calls, failed ''No route found'')
                      | ft # rest \<Rightarrow> (snapCall # calls, Inr (build_route ft tripType)))))"

section \<open>The straight-line detector\<close>

text \<open>Three points of one line, met in order: the angle between the two direction vectors
  is skipped (a zero-length segment) or is 0 degrees.\<close>

lemma turn_angle_on_line:
  assumes "t0 \<le> t1" "t1 \<le> t2"
  shows "turn_angle \<lparr>lat = a + t0 * dx, lng = b + t0 * dy\<rparr> \<lparr>lat = a + t1 * dx, lng = b + t1 * dy\<rparr>
            \<lparr>lat = a + t2 * dx, lng = b + t2 * dy\<rparr> = None
       \<or> turn_angle \<lparr>lat = a + t0 * dx, lng = b + t0 * dy\<rparr> \<lparr>lat = a + t1 * dx, lng = b + t1 * dy\<rparr>
            \<lparr>lat = a + t2 * dx, lng = b + t2 * dy\<rparr> = Some 0"
proof -
  define s1 where "s1 = t1 - t0"
  define s2 where "s2 = t2 - t1"
  define L where "L = sqrt (dx\<^sup>2 + dy\<^sup>2)"
  have s: "0 \<le> s1" "0 \<le> s2" using assms by (simp_all add: s1_def s2_def)
  have LL: "L * L = dx\<^sup>2 + dy\<^sup>2" by (simp add: L_def)
  have x1: "a + t1 * dx - (a + t0 * dx) = s1 * dx" by (simp add: s1_def algebra_simps)
  have y1: "b + t1 * dy - (b + t0 * dy) = s1 * dy" by (simp add: s1_def algebra_simps)
  have x2: "a + t2 * dx - (a + t1 * dx) = s2 * dx" by (simp add: s2_def algebra_simps)
  have y2: "b + t2 * dy - (b + t1 * dy) = s2 * dy" by (simp add: s2_def algebra_simps)
  have sq: "(k * dx)\<^sup>2 + (k * dy)\<^sup>2 = k\<^sup>2 * (dx\<^sup>2 + dy\<^sup>2)" for k :: real
    by (simp add: power2_eq_square algebra_simps)
  have len: "0 \<le> k \<Longrightarrow> sqrt ((k * dx)\<^sup>2 + (k * dy)\<^sup>2) = k * L" for k :: real
    by (simp add: sq real_sqrt_mult L_def)
  have dot: "s1 * dx * (s2 * dx) + s1 * dy * (s2 * dy) = (s1 * L) * (s2 * L)"
  proof -
    have "(s1 * L) * (s2 * L) = s1 * s2 * (L * L)" by simp
    also have "\<dots> = s1 * s2 * (dx\<^sup>2 + dy\<^sup>2)" by (simp only: LL)
    finally show ?thesis by (simp add: power2_eq_square algebra_simps)
  qed
  show ?thesis
  proof (cases "s1 * L = 0 \<or> s2 * L = 0")
    case True
    then show ?thesis
      unfolding turn_angle_def Let_def
      by (simp only: point.simps x1 y1 x2 y2 len [OF s(1)] len [OF s(2)] if_True) simp
  next
    case False
    then have nz: "(s1 * L) * (s2 * L) \<noteq> 0" by simp
    have "turn_angle \<lparr>lat = a + t0 * dx, lng = b + t0 * dy\<rparr> \<lparr>lat = a + t1 * dx, lng = b + t1 * dy\<rparr>
            \<lparr>lat = a + t2 * dx, lng = b + t2 * dy\<rparr>
        = Some (arccos (max (- 1) (min 1 (((s1 * L) * (s2 * L)) / ((s1 * L) * (s2 * L))))) * (180 / pi))"
      using False
      unfolding turn_angle_def Let_def
      by (simp only: point.simps x1 y1 x2 y2 len [OF s(1)] len [OF s(2)] dot if_False)
    also have "\<dots> = Some 0" using nz by simp
    finally show ?thesis by simp
  qed
qed

text \<open>When no interior angle exceeds 170 degrees the loop leaves \<^verbatim>\<open>straightAngles\<close> as it
  was.\<close>

lemma angle_loop_keeps_count:
  assumes "\<And>i a. i + 2 < length ps \<Longrightarrow>
             turn_angle (ps ! i) (ps ! (i + 1)) (ps ! (i + 2)) = Some a \<Longrightarrow> a \<le> 170"
  shows "fst (angle_loop ps acc) = fst acc"
  using assms
proof (induction ps acc rule: angle_loop.induct)
  case (1 prev cur nxt rest straightAngles totalAngles)
  have tail: "\<And>i a. i + 2 < length (cur # nxt # rest) \<Longrightarrow>
      turn_angle ((cur # nxt # rest) ! i) ((cur # nxt # rest) ! (i + 1))
        ((cur # nxt # rest) ! (i + 2)) = Some a
      \<Longrightarrow> a \<le> 170"
  proof -
    fix i a
    assume "i + 2 < length (cur # nxt # rest)"
      and "turn_angle ((cur # nxt # rest) ! i) ((cur # nxt # rest) ! (i + 1))
             ((cur # nxt # rest) ! (i + 2)) = Some a"
    then show "a \<le> 170" using "1.prems" [of "Suc i" a] by simp
  qed
  show ?case
  proof (cases "turn_angle prev cur nxt")
    case None
    then show ?thesis using "1.IH"(1) [OF None tail] by simp
  next
    case (Some angle)
    have "angle \<le> 170" using "1.prems" [of 0 angle] Some by simp
    then show ?thesis using "1.IH"(2) [OF Some tail] Some by simp
  qed
qed simp_all

lemma isStraightLine_on_line:
  assumes "sorted ts"
  shows "isStraightLine (map (\<lambda>t. \<lparr>lat = a + t * dx, lng = b + t * dy\<rparr>) ts) = False"
proof -
  let ?ps = "map (\<lambda>t. \<lparr>lat = a + t * dx, lng = b + t * dy\<rparr>) ts"
  have "fst (angle_loop ?ps (0, 0)) = fst (0::nat, 0::nat)"
  proof (rule angle_loop_keeps_count)
    fix i x
    assume i: "i + 2 < length ?ps"
      and t: "turn_angle (?ps ! i) (?ps ! (i + 1)) (?ps ! (i + 2)) = Some x"
    from i have le: "ts ! i \<le> ts ! (i + 1)" "ts ! (i + 1) \<le> ts ! (i + 2)"
      using assms by (simp_all add: sorted_iff_nth_mono)
    from turn_angle_on_line [OF le, of a dx b dy] t i show "x \<le> 170" by auto
  qed
  then show ?thesis
    by (auto simp: isStraightLine_def split: prod.splits)
qed

lemma isStraightLine_zigzag:
  "isStraightLine [\<lparr>lat = 0, lng = 0\<rparr>, \<lparr>lat = 0, lng = 1\<rparr>, \<lparr>lat = 1, lng = 1\<rparr>,
                   \<lparr>lat = 1, lng = 2\<rparr>] = False"
  by (simp add: isStraightLine_def turn_angle_def)

text \<open>
  C1. The claim asks \<^verbatim>\<open>isStraightLine\<close> to return true on every list of at least three
  points of one line met in order, and false on the right-angle zigzag. The code measures
  the angle between the direction vector into a point and the one out of it, which is 0
  degrees on a line and 180 degrees only where the path turns back; it counts angles above
  170. So the code returns false on every list of points \<open>(a + t * dx, b + t * dy)\<close> whose
  parameters \<open>t\<close> do not decrease, however long, and false on the zigzag as well.
\<close>

theorem isStraightLine_rejects_lines:
  "(sorted ts \<longrightarrow>
      isStraightLine (map (\<lambda>t. \<lparr>lat = a + t * dx, lng = b + t * dy\<rparr>) ts) = False) \<and>
   isStraightLine [\<lparr>lat = 0, lng = 0\<rparr>, \<lparr>lat = 0, lng = 1\<rparr>, \<lparr>lat = 1, lng = 1\<rparr>,
                   \<lparr>lat = 1, lng = 2\<rparr>] = False"
  using isStraightLine_on_line isStraightLine_zigzag by blast

theorem isStraightLine_rejects_lines_witness:
  "sorted [0, 1, 2 :: real] \<and>
   isStraightLine [\<lparr>lat = 0, lng = 0\<rparr>, \<lparr>lat = 0, lng = 1\<rparr>, \<lparr>lat = 0, lng = 2\<rparr>] = False"
  using isStraightLine_rejects_lines [of "[0, 1, 2]" 0 0 0 1] by simp

section \<open>Waypoint validation\<close>

lemma wp_isValid_true_iff:
  "wp_isValid wp = Inr True \<longleftrightarrow>
     (\<exists>la lo. get_prop wp ''lat'' = Inr (JNum la) \<and> get_prop wp ''lng'' = Inr (JNum lo) \<and>
        \<bar>la\<bar> \<le> 90 \<and> \<bar>lo\<bar> \<le> 180 \<and> \<not> (\<bar>la\<bar> < 0.5 \<and> \<bar>lo\<bar> < 0.5))"
proof (cases "get_prop wp ''lat''")
  case (Inl e)
  then show ?thesis by (simp add: wp_isValid_def)
next
  case lat: (Inr vlat)
  show ?thesis
  proof (cases "get_prop wp ''lng''")
    case (Inl e)
    then show ?thesis using lat by (simp add: wp_isValid_def)
  next
    case lng: (Inr vlng)
    show ?thesis
      using lat lng by (cases vlat; cases vlng) (auto simp: wp_isValid_def)
  qed
qed

lemma every_valid_true_iff:
  "every_valid wps = Inr True \<longleftrightarrow> (\<forall>wp \<in> set wps. wp_isValid wp = Inr True)"
  by (induction wps) (auto split: sum.splits)

text \<open>After \<^verbatim>\<open>every\<close> has passed, \<open>point_of\<close> reads the two numbers that are there.\<close>

lemma every_valid_fields:
  assumes "every_valid wps = Inr True" "wp \<in> set wps"
  shows "\<exists>la lo. get_prop wp ''lat'' = Inr (JNum la) \<and> get_prop wp ''lng'' = Inr (JNum lo) \<and>
           point_of wp = \<lparr>lat = la, lng = lo\<rparr>"
proof -
  from assms have "wp_isValid wp = Inr True" by (simp add: every_valid_true_iff)
  then obtain la lo where "get_prop wp ''lat'' = Inr (JNum la)" "get_prop wp ''lng'' = Inr (JNum lo)"
    unfolding wp_isValid_true_iff by blast
  then show ?thesis by (simp add: point_of_def field_num_def)
qed

text \<open>
  C2. \<^verbatim>\<open>isWaypointsValid(waypoints)\<close> returns true if and only if \<^verbatim>\<open>waypoints\<close> is an array
  of at least 3 entries, every entry has a \<^verbatim>\<open>lat\<close> and a \<^verbatim>\<open>lng\<close> that are numbers with
  \<open>|lat| \<le> 90\<close> and \<open>|lng| \<le> 180\<close> (so finite), no entry has both \<open>|lat| < 0.5\<close> and
  \<open>|lng| < 0.5\<close>, and \<^verbatim>\<open>isStraightLine\<close> returns false on the array. In every other case it
  returns false or, on a \<^verbatim>\<open>null\<close> entry, throws.
\<close>

theorem isWaypointsValid_true_iff:
  "isWaypointsValid waypoints = Inr True \<longleftrightarrow>
     (\<exists>wps. waypoints = JArr wps \<and> 3 \<le> length wps \<and>
        (\<forall>wp \<in> set wps. \<exists>la lo.
            get_prop wp ''lat'' = Inr (JNum la) \<and> get_prop wp ''lng'' = Inr (JNum lo) \<and>
            \<bar>la\<bar> \<le> 90 \<and> \<bar>lo\<bar> \<le> 180 \<and> \<not> (\<bar>la\<bar> < 0.5 \<and> \<bar>lo\<bar> < 0.5)) \<and>
        isStraightLine (map point_of wps) = False)"
proof (cases waypoints)
  case (JArr wps)
  have ev: "every_valid wps = Inr True \<longleftrightarrow>
      (\<forall>wp \<in> set wps. \<exists>la lo.
            get_prop wp ''lat'' = Inr (JNum la) \<and> get_prop wp ''lng'' = Inr (JNum lo) \<and>
            \<bar>la\<bar> \<le> 90 \<and> \<bar>lo\<bar> \<le> 180 \<and> \<not> (\<bar>la\<bar> < 0.5 \<and> \<bar>lo\<bar> < 0.5))"
    by (simp only: every_valid_true_iff wp_isValid_true_iff)
  show ?thesis
  proof (cases "every_valid wps")
    case (Inl e)
    then show ?thesis using JArr ev by auto
  next
    case (Inr b)
    then show ?thesis using JArr ev by (cases b) auto
  qed
qed simp_all

theorem isWaypointsValid_true_iff_witness:
  "isWaypointsValid (JArr [JObj [(''lat'', JNum 10), (''lng'', JNum 10)],
                           JObj [(''lat'', JNum 10), (''lng'', JNum 11)],
                           JObj [(''lat'', JNum 11), (''lng'', JNum 11)]]) = Inr True
   \<and> isWaypointsValid (JArr [JObj [(''lat'', JNum 10), (''lng'', JNum 10)],
                           JObj [(''lat'', JNum 0.25), (''lng'', JNum 0.25)],
                           JObj [(''lat'', JNum 11), (''lng'', JNum 11)]]) \<noteq> Inr True"
proof
  show "isWaypointsValid (JArr [JObj [(''lat'', JNum 10), (''lng'', JNum 10)],
                           JObj [(''lat'', JNum 10), (''lng'', JNum 11)],
                           JObj [(''lat'', JNum 11), (''lng'', JNum 11)]]) = Inr True"
    unfolding isWaypointsValid_true_iff
    by (simp add: point_of_def field_num_def isStraightLine_def turn_angle_def)
  show "isWaypointsValid (JArr [JObj [(''lat'', JNum 10), (''lng'', JNum 10)],
                           JObj [(''lat'', JNum 0.25), (''lng'', JNum 0.25)],
                           JObj [(''lat'', JNum 11), (''lng'', JNum 11)]]) \<noteq> Inr True"
    unfolding isWaypointsValid_true_iff by simp
qed

section \<open>The orchestrator's retry bound\<close>

lemma proposal_ok_invalid:
  assumes "r = JNull \<or> (\<exists>w. get_prop r ''waypoints'' = Inr w \<and> isWaypointsValid w = Inr False)"
  shows "proposal_ok r = Inr False"
  using assms
proof
  assume "r = JNull"
  then show ?thesis by (simp add: proposal_ok_def)
next
  assume "\<exists>w. get_prop r ''waypoints'' = Inr w \<and> isWaypointsValid w = Inr False"
  then obtain w where w: "get_prop r ''waypoints'' = Inr w" "isWaypointsValid w = Inr False"
    by blast
  then show ?thesis by (simp add: proposal_ok_def)
qed

lemma gr_loop_past:
  "gr_loop p s 4 =
     ([], Inl (Error ''AI failed to generate realistic waypoints after multiple attempts.''))"
  by (subst gr_loop.simps) (simp add: maxRetries_def)

lemma gr_loop_rejected:
  assumes "attempt \<le> 3" "proposal_ok (p attempt (attempt > 1)) = Inr False" "nxt = attempt + 1"
  shows "gr_loop p s attempt =
     (Propose attempt (attempt > 1) # (if attempt < 3 then [Sleep 1000] else []) @ fst (gr_loop p s nxt),
      snd (gr_loop p s nxt))"
  using assms
  by (subst gr_loop.simps) (simp add: maxRetries_def Let_def split: prod.splits)

text \<open>
  When on every attempt the proposer yields \<^verbatim>\<open>null\<close>, or a value whose \<^verbatim>\<open>waypoints\<close>
  \<^verbatim>\<open>isWaypointsValid\<close> answers with false, \<^verbatim>\<open>generateRoute\<close> calls the proposer exactly
  three times, with the retry flag off on the first call and on for the second and third,
  waits one second between the attempts, never calls the synthesizer, and throws the error
  that the attempts are exhausted.
\<close>

lemma generateRoute_exhausts:
  assumes "\<And>attempt isRetry.
      proposer attempt isRetry = JNull \<or>
      (\<exists>w. get_prop (proposer attempt isRetry) ''waypoints'' = Inr w \<and>
           isWaypointsValid w = Inr False)"
  shows "generateRoute proposer synthesizer =
     ([Propose 1 False, Sleep 1000, Propose 2 True, Sleep 1000, Propose 3 True],
      Inl (Error ''AI failed to generate realistic waypoints after multiple attempts.''))"
proof -
  have bad: "proposal_ok (proposer attempt isRetry) = Inr False" for attempt isRetry
    by (rule proposal_ok_invalid) (rule assms)
  have l3: "gr_loop proposer synthesizer 3 =
      ([Propose 3 True],
       Inl (Error ''AI failed to generate realistic waypoints after multiple attempts.''))"
    by (subst gr_loop_rejected [where nxt = 4]) (simp_all add: bad gr_loop_past)
  have l2: "gr_loop proposer synthesizer 2 =
      ([Propose 2 True, Sleep 1000, Propose 3 True],
       Inl (Error ''AI failed to generate realistic waypoints after multiple attempts.''))"
    by (subst gr_loop_rejected [where nxt = 3]) (simp_all add: bad l3)
  have l1: "gr_loop proposer synthesizer 1 =
      ([Propose 1 False, Sleep 1000, Propose 2 True, Sleep 1000, Propose 3 True],
       Inl (Error ''AI failed to generate realistic waypoints after multiple attempts.''))"
    by (subst gr_loop_rejected [where nxt = 2]) (simp_all add: bad l2)
  show ?thesis unfolding generateRoute_def by (rule l1)
qed

lemma isWaypointsValid_null_entry:
  "isWaypointsValid (JArr [JNull, JNull, JNull]) = Inl TypeError"
  by (simp add: wp_isValid_def)

text \<open>
  C3. The claim has \<^verbatim>\<open>generateRoute\<close> make exactly three proposer attempts and then fail
  with the exhausted-attempts error whenever no attempt yields waypoints that pass
  \<^verbatim>\<open>isWaypointsValid\<close>. The code does so where the validation answers false
  (\<open>generateRoute_exhausts\<close>), and does not where the validation throws: on a \<^verbatim>\<open>waypoints\<close>
  array with a \<^verbatim>\<open>null\<close> entry the \<^verbatim>\<open>every\<close> callback reads \<^verbatim>\<open>wp.lat\<close> of \<^verbatim>\<open>null\<close>, the
  TypeError is raised outside every \<^verbatim>\<open>try\<close> of \<^verbatim>\<open>generateRoute\<close>, and it leaves
  \<^verbatim>\<open>generateRoute\<close> on the first attempt: one proposer call, no wait, no retry, and an
  error that is not the exhausted-attempts error.
\<close>

theorem generateRoute_null_entry:
  "isWaypointsValid (JArr [JNull, JNull, JNull]) = Inl TypeError \<and>
   generateRoute (\<lambda>attempt isRetry. JObj [(''waypoints'', JArr [JNull, JNull, JNull])]) synthesizer
     = ([Propose 1 False], Inl TypeError)"
  unfolding generateRoute_def
  by (subst gr_loop.simps) (simp add: maxRetries_def proposal_ok_def wp_isValid_def)

theorem generateRoute_null_entry_witness:
  "generateRoute (\<lambda>attempt isRetry. JObj [(''waypoints'', JArr [JNull, JNull, JNull])])
      (\<lambda>attempt w. Inl ''unused'' :: string + unit)
     = ([Propose 1 False], Inl TypeError)"
  using generateRoute_null_entry [of "\<lambda>attempt w. Inl ''unused'' :: string + unit"] by simp

section \<open>The snapper is all or nothing\<close>

lemma map_Some_the:
  "None \<notin> set xs \<Longrightarrow> map Some (map the xs) = xs"
  by (induction xs) auto

lemma snap_try_items:
  assumes "snap_try svc waypoints tripType = Inr cs"
  shows "\<exists>data. svc (snap_request_of waypoints tripType) = Inr data \<and>
        snapped_of data = map Some cs \<and> length cs = length waypoints"
proof (cases "svc (snap_request_of waypoints tripType)")
  case (Inl err)
  with assms show ?thesis by (simp add: snap_try_def)
next
  case (Inr data)
  show ?thesis
  proof (cases "length (snapped_of data) \<noteq> length waypoints \<or> (\<exists>p \<in> set (snapped_of data). p = None)")
    case True
    with assms Inr show ?thesis by (simp add: snap_try_def Let_def)
  next
    case False
    with assms Inr have cs: "cs = map the (snapped_of data)"
      by (simp add: snap_try_def Let_def)
    from False have "None \<notin> set (snapped_of data)" by simp
    then have "map Some (map the (snapped_of data)) = snapped_of data"
      by (rule map_Some_the)
    with cs False Inr show ?thesis by simp
  qed
qed

lemma snap_item_missing:
  "(case item of NullItem \<Rightarrow> None | Item location \<Rightarrow> location) = None \<longleftrightarrow>
     item = NullItem \<or> item = Item None"
  by (cases item) simp_all

lemma snapped_of_None_iff:
  "None \<in> set (snapped_of data) \<longleftrightarrow>
     (\<exists>item \<in> set (case data of None \<Rightarrow> [] | Some locations \<Rightarrow> locations).
         item = NullItem \<or> item = Item None)"
proof -
  have "None \<in> set (map f xs) \<longleftrightarrow> (\<exists>x \<in> set xs. f x = None)"
    for f :: "snap_item \<Rightarrow> lonlat option" and xs
    by (induction xs) auto
  then have "None \<in> set (snapped_of data) \<longleftrightarrow>
      (\<exists>item \<in> set (case data of None \<Rightarrow> [] | Some locations \<Rightarrow> locations).
         (case item of NullItem \<Rightarrow> None | Item location \<Rightarrow> location) = None)"
    unfolding snapped_of_def .
  then show ?thesis by (simp only: snap_item_missing)
qed

text \<open>
  C4. When the snap service answers with a number of locations other than the number of
  waypoints, or with an entry that is \<^verbatim>\<open>null\<close> or has no \<^verbatim>\<open>location\<close>, \<^verbatim>\<open>snapWaypoints\<close>
  throws and returns no coordinates; when the request itself fails it throws as well; the
  error is always the generic \<^verbatim>\<open>Snap failed\<close>, and the unsnapped input is never returned:
  whatever is returned has one coordinate for every waypoint, each taken from the reply.
\<close>

theorem snapWaypoints_all_or_nothing:
  "(svc (snap_request_of waypoints tripType) = Inl err \<longrightarrow>
      snapWaypoints svc waypoints tripType = Inl ''Snap failed'') \<and>
   (svc (snap_request_of waypoints tripType) = Inr data \<and>
      (length (case data of None \<Rightarrow> [] | Some locations \<Rightarrow> locations) \<noteq> length waypoints \<or>
       (\<exists>item \<in> set (case data of None \<Rightarrow> [] | Some locations \<Rightarrow> locations).
           item = NullItem \<or> item = Item None)) \<longrightarrow>
      snapWaypoints svc waypoints tripType = Inl ''Snap failed'') \<and>
   (snapWaypoints svc waypoints tripType = Inr cs \<longrightarrow>
      length cs = length waypoints \<and>
      (\<exists>data. svc (snap_request_of waypoints tripType) = Inr data \<and> snapped_of data = map Some cs)) \<and>
   (snapWaypoints svc waypoints tripType = Inl m \<longrightarrow> m = ''Snap failed'')"
proof (intro conjI impI)
  assume "svc (snap_request_of waypoints tripType) = Inl err"
  then show "snapWaypoints svc waypoints tripType = Inl ''Snap failed''"
    by (simp add: snapWaypoints_def snap_try_def)
next
  assume a: "svc (snap_request_of waypoints tripType) = Inr data \<and>
      (length (case data of None \<Rightarrow> [] | Some locations \<Rightarrow> locations) \<noteq> length waypoints \<or>
       (\<exists>item \<in> set (case data of None \<Rightarrow> [] | Some locations \<Rightarrow> locations).
           item = NullItem \<or> item = Item None))"
  then have "length (snapped_of data) \<noteq> length waypoints \<or> None \<in> set (snapped_of data)"
    unfolding snapped_of_None_iff by (simp add: snapped_of_def)
  then have "snap_try svc waypoints tripType =
      Inl ''Some waypoints failed to snap (off network / over water).''"
    using a unfolding snap_try_def Let_def by (simp add: Bex_def)
  then show "snapWaypoints svc waypoints tripType = Inl ''Snap failed''"
    by (simp add: snapWaypoints_def)
next
  assume r: "snapWaypoints svc waypoints tripType = Inr cs"
  then have "snap_try svc waypoints tripType = Inr cs"
    by (simp add: snapWaypoints_def split: sum.splits)
  from snap_try_items [OF this]
  show "length cs = length waypoints"
    and "\<exists>data. svc (snap_request_of waypoints tripType) = Inr data \<and> snapped_of data = map Some cs"
    by blast+
next
  assume "snapWaypoints svc waypoints tripType = Inl m"
  then show "m = ''Snap failed''"
    by (simp add: snapWaypoints_def split: sum.splits)
qed

theorem snapWaypoints_all_or_nothing_witness:
  "snapWaypoints (\<lambda>req. Inr (Some [Item (Some (2, 41)), NullItem, Item (Some (2, 42))]))
     [\<lparr>lat = 41, lng = 2\<rparr>, \<lparr>lat = 41.5, lng = 2.5\<rparr>, \<lparr>lat = 42, lng = 2\<rparr>] ''hiking'' = Inl ''Snap failed''
   \<and> snapWaypoints (\<lambda>req. Inl \<lparr>status = Some 500, api_message = [], message = ''Request failed with status code 500''\<rparr>)
     [\<lparr>lat = 41, lng = 2\<rparr>, \<lparr>lat = 41.5, lng = 2.5\<rparr>, \<lparr>lat = 42, lng = 2\<rparr>] ''hiking'' = Inl ''Snap failed''
   \<and> snapWaypoints (\<lambda>req. Inr (Some [Item (Some (2, 41)), Item (Some (2, 42))]))
     [\<lparr>lat = 41, lng = 2\<rparr>, \<lparr>lat = 42, lng = 2\<rparr>] ''hiking'' = Inr [(2, 41), (2, 42)]"
proof (intro conjI)
  show "snapWaypoints (\<lambda>req. Inr (Some [Item (Some (2, 41)), NullItem, Item (Some (2, 42))]))
     [\<lparr>lat = 41, lng = 2\<rparr>, \<lparr>lat = 41.5, lng = 2.5\<rparr>, \<lparr>lat = 42, lng = 2\<rparr>] ''hiking'' = Inl ''Snap failed''"
    using snapWaypoints_all_or_nothing
      [of "\<lambda>req. Inr (Some [Item (Some (2, 41)), NullItem, Item (Some (2, 42))])"
          "[\<lparr>lat = 41, lng = 2\<rparr>, \<lparr>lat = 41.5, lng = 2.5\<rparr>, \<lparr>lat = 42, lng = 2\<rparr>]" "''hiking''"
          "\<lparr>status = None, api_message = [], message = []\<rparr>"
          "Some [Item (Some (2, 41)), NullItem, Item (Some (2, 42))]" "[]" "[]"]
    by simp
  show "snapWaypoints (\<lambda>req. Inl \<lparr>status = Some 500, api_message = [], message = ''Request failed with status code 500''\<rparr>)
     [\<lparr>lat = 41, lng = 2\<rparr>, \<lparr>lat = 41.5, lng = 2.5\<rparr>, \<lparr>lat = 42, lng = 2\<rparr>] ''hiking'' = Inl ''Snap failed''"
    using snapWaypoints_all_or_nothing
      [of "\<lambda>req. Inl \<lparr>status = Some 500, api_message = [], message = ''Request failed with status code 500''\<rparr>"
          "[\<lparr>lat = 41, lng = 2\<rparr>, \<lparr>lat = 41.5, lng = 2.5\<rparr>, \<lparr>lat = 42, lng = 2\<rparr>]" "''hiking''"
          "\<lparr>status = Some 500, api_message = [], message = ''Request failed with status code 500''\<rparr>"
          None "[]" "[]"]
    by simp
  show "snapWaypoints (\<lambda>req. Inr (Some [Item (Some (2, 41)), Item (Some (2, 42))]))
     [\<lparr>lat = 41, lng = 2\<rparr>, \<lparr>lat = 42, lng = 2\<rparr>] ''hiking'' = Inr [(2, 41), (2, 42)]"
    by (simp add: snapWaypoints_def snap_try_def snapped_of_def snap_request_of_def)
qed

section \<open>Loop closure\<close>

lemma haversine_same: "haversineMetersLonLat a a = 0"
  by (simp add: haversineMetersLonLat_def toRad_def)

lemma haversine_half_turn: "haversineMetersLonLat (0, 0) (180, 0) = 6371000 * pi"
  by (simp add: haversineMetersLonLat_def toRad_def)

lemma request_directions_calls:
  "\<exists>rest. fst (request_directions sv baseBody) = DirectionsCall (baseBody\<lparr>avoid_ferries := True\<rparr>) # rest \<and>
      set rest \<subseteq> {DirectionsCall baseBody}"
  unfolding request_directions_def Let_def
  by (auto split: sum.splits)

text \<open>
  C8. Once the waypoints have been snapped, every request to the directions service carries
  the snapped coordinates, with the first one appended when the trip is a cycling trip,
  there are at least 2 coordinates and the last lies more than 100 m (haversine) from the
  first, and unchanged otherwise; so nothing is ever appended for hiking. At least one
  request is made, the first with the ferry-avoiding options.
\<close>

theorem loop_closure_request:
  assumes "snapWaypoints (snap_service sv) waypoints tripType = Inr snapped"
  shows "\<exists>rest. fst (generateRouteWithOpenRouteService sv waypoints tripType) =
           SnapCall (snap_request_of waypoints tripType) #
           DirectionsCall \<lparr> dr_profile = profile_of tripType,
                            dr_coordinates =
                              (if tripType = ''cycling'' \<and> 2 \<le> length snapped \<and>
                                  haversineMetersLonLat (hd snapped) (last snapped) > 100
                               then snapped @ [hd snapped] else snapped),
                            avoid_ferries = True \<rparr> # rest \<and>
           set rest \<subseteq> {DirectionsCall \<lparr> dr_profile = profile_of tripType,
                            dr_coordinates =
                              (if tripType = ''cycling'' \<and> 2 \<le> length snapped \<and>
                                  haversineMetersLonLat (hd snapped) (last snapped) > 100
                               then snapped @ [hd snapped] else snapped),
                            avoid_ferries = False \<rparr>}"
proof -
  have cl: "close_loop tripType snapped =
      (if tripType = ''cycling'' \<and> 2 \<le> length snapped \<and>
          haversineMetersLonLat (hd snapped) (last snapped) > 100
       then snapped @ [hd snapped] else snapped)"
  proof (cases "tripType = ''cycling'' \<and> 2 \<le> length snapped")
    case True
    then have ne: "snapped \<noteq> []" by auto
    have "1 < length snapped" using True by simp
    then show ?thesis
      using True ne by (simp add: close_loop_def Let_def hd_conv_nth last_conv_nth)
  next
    case False
    then show ?thesis by (auto simp: close_loop_def)
  qed
  let ?base = "\<lparr> dr_profile = profile_of tripType,
                 dr_coordinates = close_loop tripType snapped,
                 avoid_ferries = False \<rparr>"
  obtain rest where rest: "fst (request_directions sv ?base) = DirectionsCall (?base\<lparr>avoid_ferries := True\<rparr>) # rest"
      "set rest \<subseteq> {DirectionsCall ?base}"
    using request_directions_calls [of sv ?base] by blast
  have "fst (generateRouteWithOpenRouteService sv waypoints tripType) =
      SnapCall (snap_request_of waypoints tripType) # fst (request_directions sv ?base)"
    using assms unfolding generateRouteWithOpenRouteService_def Let_def
    by (simp split: prod.splits sum.splits list.splits)
  with rest show ?thesis unfolding cl [symmetric] by simp
qed

theorem loop_closure_request_witness:
  "snapWaypoints (snap_service
      \<lparr>snap_service = \<lambda>req. Inr (Some [Item (Some (0, 0)), Item (Some (180, 0))]),
       directions_service = \<lambda>req. Inr [],
       unknown_parameter = \<lambda>m. False\<rparr>)
      [\<lparr>lat = 0, lng = 0\<rparr>, \<lparr>lat = 0, lng = 180\<rparr>] ''cycling'' = Inr [(0, 0), (180, 0)]
   \<and> (\<exists>rest. fst (generateRouteWithOpenRouteService
      \<lparr>snap_service = \<lambda>req. Inr (Some [Item (Some (0, 0)), Item (Some (180, 0))]),
       directions_service = \<lambda>req. Inr [],
       unknown_parameter = \<lambda>m. False\<rparr>
      [\<lparr>lat = 0, lng = 0\<rparr>, \<lparr>lat = 0, lng = 180\<rparr>] ''cycling'') =
        SnapCall \<lparr>sr_profile = ''cycling-regular'', sr_locations = [(0, 0), (180, 0)], sr_radius = 120\<rparr> #
        DirectionsCall \<lparr>dr_profile = ''cycling-regular'',
                        dr_coordinates = [(0, 0), (180, 0), (0, 0)],
                        avoid_ferries = True\<rparr> # rest)"
proof -
  have h: "snapWaypoints (snap_service
      \<lparr>snap_service = \<lambda>req. Inr (Some [Item (Some (0, 0)), Item (Some (180, 0))]),
       directions_service = \<lambda>req. Inr [],
       unknown_parameter = \<lambda>m. False\<rparr>)
      [\<lparr>lat = 0, lng = 0\<rparr>, \<lparr>lat = 0, lng = 180\<rparr>] ''cycling'' = Inr [(0, 0), (180, 0)]"
    by (simp add: snapWaypoints_def snap_try_def snapped_of_def)
  have far: "haversineMetersLonLat (0, 0) (180, 0) > 100"
    unfolding haversine_half_turn using pi_ge_two by simp
  from loop_closure_request [OF h] far h show ?thesis
    by (auto simp: profile_of_def snap_request_of_def)
qed

section \<open>The day split\<close>

lemma length_cum_from: "length (cum_from acc prv cs) = length cs"
  by (induction cs arbitrary: acc prv) simp_all

lemma length_cumulative: "coords \<noteq> [] \<Longrightarrow> length (cumulative coords) = length coords"
  by (cases coords) (simp_all add: cumulative_def length_cum_from)


lemma findIndex_from_first:
  assumes "k < length xs" "P (xs ! k)" "\<forall>j<k. \<not> P (xs ! j)"
  shows "findIndex_from i P xs = int (i + k)"
  using assms
proof (induction xs arbitrary: i k)
  case Nil
  then show ?case by simp
next
  case (Cons x xs)
  show ?case
  proof (cases k)
    case 0
    with Cons.prems show ?thesis by simp
  next
    case (Suc k')
    with Cons.prems have "\<not> P x" by auto
    moreover have "findIndex_from (Suc i) P xs = int (Suc i + k')"
    proof (rule Cons.IH)
      show "k' < length xs" using Cons.prems Suc by simp
      show "P (xs ! k')" using Cons.prems Suc by simp
      show "\<forall>j<k'. \<not> P (xs ! j)" using Cons.prems(3) Suc by auto
    qed
    ultimately show ?thesis using Suc by simp
  qed
qed


lemma splitIdx_ge_1: "1 \<le> splitIdx coords ps"
  by (simp add: splitIdx_def Let_def)

lemma splitIdx_eq:
  "splitIdx coords ps = max 1 (findIndex (\<lambda>v. v \<ge> totalGeomMeters coords ps / 2) (cumulative coords))"
  by (simp add: splitIdx_def Let_def)


lemma length_points_from: "length (points_from tt sp i cs) = length cs"
  by (induction cs arbitrary: i) simp_all

lemma nth_points_from:
  "k < length cs \<Longrightarrow> points_from tt sp i cs ! k =
     \<lparr> lat = snd (cs ! k), lng = fst (cs ! k),
       day = (if tt = ''cycling'' then (if int (i + k) \<le> sp then 1 else 2) else 1),
       order = i + k \<rparr>"
proof (induction cs arbitrary: i k)
  case Nil
  then show ?case by simp
next
  case (Cons c cs)
  then show ?case by (cases k) simp_all
qed

lemma points_from_eq_map:
  "points_from tt sp 0 cs =
     map (\<lambda>k. \<lparr> lat = snd (cs ! k), lng = fst (cs ! k),
                 day = (if tt = ''cycling'' then (if int k \<le> sp then 1 else 2) else 1),
                 order = k \<rparr>) [0..<length cs]"
  by (rule nth_equalityI) (simp_all add: length_points_from nth_points_from)

lemma map_order_points_from: "map order (points_from tt sp i cs) = [i..<i + length cs]"
proof (induction cs arbitrary: i)
  case Nil
  then show ?case by simp
next
  case (Cons c cs)
  have "[i..<i + length (c # cs)] = i # [Suc i..<Suc i + length cs]"
    by (subst upt_rec) simp
  then show ?case using Cons.IH [of "Suc i"] by simp
qed

lemma points_from_day2:
  "sp < int i \<Longrightarrow> filter (\<lambda>p. day p = 1) (points_from ''cycling'' sp i cs) = [] \<and>
     filter (\<lambda>p. day p = 2) (points_from ''cycling'' sp i cs) = points_from ''cycling'' sp i cs"
  by (induction cs arbitrary: i) simp_all

lemma points_from_split:
  "filter (\<lambda>p. day p = 1) (points_from ''cycling'' sp i cs) @
   filter (\<lambda>p. day p = 2) (points_from ''cycling'' sp i cs) = points_from ''cycling'' sp i cs"
proof (induction cs arbitrary: i)
  case Nil
  then show ?case by simp
next
  case (Cons c cs)
  show ?case
  proof (cases "int i \<le> sp")
    case True
    then show ?thesis using Cons.IH [of "Suc i"] by simp
  next
    case False
    then have "sp < int (Suc i)" by simp
    from points_from_day2 [OF this, of cs] False show ?thesis by simp
  qed
qed

lemma day_points_from:
  "p \<in> set (points_from tt sp i cs) \<Longrightarrow> tt \<noteq> ''cycling'' \<Longrightarrow> day p = 1"
  by (induction cs arbitrary: i) auto

lemma points_build_route:
  "points (build_route ft tt) = points_from tt (splitIdx (geometry ft) (properties ft)) 0 (geometry ft)"
  by (simp add: build_route_def Let_def)

lemma dr_points_build_route:
  "map dr_points (dailyRoutes (build_route ft tt)) =
     (if tt = ''cycling''
      then [filter (\<lambda>p. day p = 1) (points (build_route ft tt)),
            filter (\<lambda>p. day p = 2) (points (build_route ft tt))]
      else [points (build_route ft tt)])"
  by (simp add: build_route_def Let_def)

lemma dr_day_build_route:
  "map dr_day (dailyRoutes (build_route ft tt)) = (if tt = ''cycling'' then [1, 2] else [1])"
  by (simp add: build_route_def Let_def)

lemma concat_build_route:
  "concat (map dr_points (dailyRoutes (build_route ft tt))) = points (build_route ft tt)"
  unfolding dr_points_build_route
  by (simp add: points_build_route points_from_split del: One_nat_def)

lemma days_build_route:
  assumes "d \<in> set (dailyRoutes (build_route ft tt))" "p \<in> set (dr_points d)"
  shows "day p = dr_day d"
proof (cases "tt = ''cycling''")
  case True
  with assms show ?thesis by (auto simp: build_route_def Let_def)
next
  case False
  with assms have "p \<in> set (points_from tt (splitIdx (geometry ft) (properties ft)) 0 (geometry ft))"
    and "dr_day d = 1"
    by (auto simp: build_route_def Let_def)
  with False show ?thesis using day_points_from by simp
qed

lemma cum_out_and_back:
  "cumulative [(0, 0), (180, 0), (0, 0)] = [0, 6371000 * pi, 2 * (6371000 * pi)]"
  by (simp add: cumulative_def haversineMetersLonLat_def toRad_def)

lemma split_out_and_back:
  "splitIdx [(0, 0), (180, 0), (0, 0)]
      \<lparr>summary_distance = None, summary_duration = None, ascent = None, descent = None\<rparr> = 1"
  by (simp add: splitIdx_def totalGeomMeters_def cum_out_and_back js_or_def opt_or_def findIndex_def)

text \<open>
  C5. In every synthesized route the points are the geometry vertices in order, vertex \<open>k\<close>
  with \<^verbatim>\<open>order\<close> \<open>k\<close> and, for cycling, day 1 when \<open>k\<close> is at or before the split index
  and day 2 after it (day 1 throughout for any other trip type); the daily routes are day 1
  and day 2 for cycling and day 1 alone otherwise; each holds points of its own day only,
  and their point lists put one after the other are the whole point list again, so that
  every vertex is in exactly one of them and \<^verbatim>\<open>order\<close> runs 0, 1, 2, ... across them,
  strictly increasing.
\<close>

theorem day_partition:
  "points (build_route ft tt) =
     map (\<lambda>k. \<lparr> lat = snd (geometry ft ! k), lng = fst (geometry ft ! k),
                 day = (if tt = ''cycling''
                        then (if int k \<le> splitIdx (geometry ft) (properties ft) then 1 else 2)
                        else 1),
                 order = k \<rparr>) [0..<length (geometry ft)]
   \<and> concat (map dr_points (dailyRoutes (build_route ft tt))) = points (build_route ft tt)
   \<and> map dr_day (dailyRoutes (build_route ft tt)) = (if tt = ''cycling'' then [1, 2] else [1])
   \<and> (\<forall>d \<in> set (dailyRoutes (build_route ft tt)). \<forall>p \<in> set (dr_points d). day p = dr_day d)
   \<and> map order (concat (map dr_points (dailyRoutes (build_route ft tt)))) = [0..<length (geometry ft)]
   \<and> sorted_wrt (<) (map order (concat (map dr_points (dailyRoutes (build_route ft tt)))))"
proof (intro conjI)
  show "points (build_route ft tt) =
     map (\<lambda>k. \<lparr> lat = snd (geometry ft ! k), lng = fst (geometry ft ! k),
                 day = (if tt = ''cycling''
                        then (if int k \<le> splitIdx (geometry ft) (properties ft) then 1 else 2)
                        else 1),
                 order = k \<rparr>) [0..<length (geometry ft)]"
    unfolding points_build_route by (rule points_from_eq_map)
  show "concat (map dr_points (dailyRoutes (build_route ft tt))) = points (build_route ft tt)"
    by (rule concat_build_route)
  show "map dr_day (dailyRoutes (build_route ft tt)) = (if tt = ''cycling'' then [1, 2] else [1])"
    by (rule dr_day_build_route)
  show "\<forall>d \<in> set (dailyRoutes (build_route ft tt)). \<forall>p \<in> set (dr_points d). day p = dr_day d"
    using days_build_route by blast
  have ord: "map order (concat (map dr_points (dailyRoutes (build_route ft tt)))) = [0..<length (geometry ft)]"
    unfolding concat_build_route points_build_route
    using map_order_points_from [of tt _ 0 "geometry ft"] by simp
  then show "map order (concat (map dr_points (dailyRoutes (build_route ft tt)))) = [0..<length (geometry ft)]" .
  show "sorted_wrt (<) (map order (concat (map dr_points (dailyRoutes (build_route ft tt)))))"
    unfolding ord by (rule sorted_wrt_upt)
qed

theorem day_partition_witness:
  "concat (map dr_points (dailyRoutes (build_route
      \<lparr>geometry = [(0, 0), (180, 0), (0, 0)],
       properties = \<lparr>summary_distance = None, summary_duration = None, ascent = None, descent = None\<rparr>\<rparr>
      ''cycling''))) =
   [\<lparr>lat = 0, lng = 0, day = 1, order = 0\<rparr>, \<lparr>lat = 0, lng = 180, day = 1, order = 1\<rparr>,
    \<lparr>lat = 0, lng = 0, day = 2, order = 2\<rparr>]"
  using day_partition
    [of "\<lparr>geometry = [(0, 0), (180, 0), (0, 0)],
       properties = \<lparr>summary_distance = None, summary_duration = None, ascent = None, descent = None\<rparr>\<rparr>"
        "''cycling''"]
  by (simp add: split_out_and_back upt_rec [of 0] upt_rec [of 1] upt_rec [of 2])

section \<open>Proportional split and split index\<close>





text \<open>A geometry of one vertex, which no GeoJSON line is, is not guarded against: the split
  index is 1, \<^verbatim>\<open>cum[1]\<close> is \<^verbatim>\<open>undefined\<close>, and both daily distances are \<^verbatim>\<open>NaN\<close>.\<close>

lemma split_one_vertex:
  "num2 (+)
     (distance (dailyRoutes (build_route \<lparr>geometry = [(0, 0)],
         properties = \<lparr>summary_distance = Some 1000, summary_duration = Some 3600,
                        ascent = Some 10, descent = Some 10\<rparr>\<rparr> ''cycling'') ! 0))
     (distance (dailyRoutes (build_route \<lparr>geometry = [(0, 0)],
         properties = \<lparr>summary_distance = Some 1000, summary_duration = Some 3600,
                        ascent = Some 10, descent = Some 10\<rparr>\<rparr> ''cycling'') ! 1))
   \<noteq> Fin (totalDistance (build_route \<lparr>geometry = [(0, 0)],
         properties = \<lparr>summary_distance = Some 1000, summary_duration = Some 3600,
                        ascent = Some 10, descent = Some 10\<rparr>\<rparr> ''cycling''))"
  by (simp add: build_route_def Let_def splitIdx_def totalGeomMeters_def cumulative_def
        findIndex_def cum_at_def opt_or_def js_or_def)

text \<open>
  C7 (as amended). For a non-empty geometry in which vertex \<open>k\<close> is the first whose
  cumulative distance reaches half the total length, the split index is \<open>k\<close>, raised to 1
  when \<open>k\<close> is 0; it is \<open>k\<close> itself whenever the total length is positive.
\<close>

theorem splitIdx_first_vertex:
  assumes "coords \<noteq> []" "k < length coords"
    and "cumulative coords ! k \<ge> totalGeomMeters coords ps / 2"
    and "\<forall>j<k. cumulative coords ! j < totalGeomMeters coords ps / 2"
  shows "splitIdx coords ps = max 1 (int k) \<and>
         (0 < totalGeomMeters coords ps \<longrightarrow> splitIdx coords ps = int k)"
proof -
  have len: "length (cumulative coords) = length coords" by (rule length_cumulative [OF assms(1)])
  have "findIndex_from 0 (\<lambda>v. v \<ge> totalGeomMeters coords ps / 2) (cumulative coords) = int (0 + k)"
  proof (rule findIndex_from_first)
    show "k < length (cumulative coords)" using assms(2) len by simp
    show "totalGeomMeters coords ps / 2 \<le> cumulative coords ! k" by (rule assms(3))
    show "\<forall>j<k. \<not> totalGeomMeters coords ps / 2 \<le> cumulative coords ! j"
      using assms(4) by (simp add: not_le)
  qed
  then have fi: "findIndex (\<lambda>v. v \<ge> totalGeomMeters coords ps / 2) (cumulative coords) = int k"
    by (simp add: findIndex_def)
  have sp: "splitIdx coords ps = max 1 (int k)"
    unfolding splitIdx_eq fi ..
  have "k \<noteq> 0" if pos: "0 < totalGeomMeters coords ps"
  proof
    assume "k = 0"
    with assms(3) have "totalGeomMeters coords ps / 2 \<le> 0" by (simp add: cumulative_def)
    with pos show False by simp
  qed
  then show ?thesis using sp by auto
qed

theorem splitIdx_first_vertex_witness:
  "splitIdx [(0, 0), (180, 0), (0, 0)]
      \<lparr>summary_distance = None, summary_duration = None, ascent = None, descent = None\<rparr> = 1
   \<and> 0 < totalGeomMeters [(0, 0), (180, 0), (0, 0)]
      \<lparr>summary_distance = None, summary_duration = None, ascent = None, descent = None\<rparr>"
proof -
  have t: "totalGeomMeters [(0, 0), (180, 0), (0, 0)]
      \<lparr>summary_distance = None, summary_duration = None, ascent = None, descent = None\<rparr>
      = 2 * (6371000 * pi)"
    by (simp add: totalGeomMeters_def cum_out_and_back js_or_def)
  have "splitIdx [(0, 0), (180, 0), (0, 0)]
      \<lparr>summary_distance = None, summary_duration = None, ascent = None, descent = None\<rparr> = max 1 (int 1)
     \<and> (0 < totalGeomMeters [(0, 0), (180, 0), (0, 0)]
      \<lparr>summary_distance = None, summary_duration = None, ascent = None, descent = None\<rparr> \<longrightarrow>
      splitIdx [(0, 0), (180, 0), (0, 0)]
      \<lparr>summary_distance = None, summary_duration = None, ascent = None, descent = None\<rparr> = int 1)"
    by (rule splitIdx_first_vertex) (simp_all add: t cum_out_and_back)
  then show ?thesis by (simp add: t)
qed

text \<open>C7 as stated fails where the first vertex already reaches half the total length, as
  on two coinciding vertices: the index of the first such vertex is 0, the split index 1.\<close>

theorem splitIdx_first_vertex_counterexample:
  "cumulative [(0, 0), (0, 0)] ! 0 \<ge>
      totalGeomMeters [(0, 0), (0, 0)]
        \<lparr>summary_distance = None, summary_duration = None, ascent = None, descent = None\<rparr> / 2
   \<and> splitIdx [(0, 0), (0, 0)]
        \<lparr>summary_distance = None, summary_duration = None, ascent = None, descent = None\<rparr> = 1"
  by (simp add: splitIdx_def totalGeomMeters_def cumulative_def haversine_same findIndex_def
        opt_or_def js_or_def)

text \<open>The fallback to the midpoint is never taken: when no vertex reaches half the total
  length \<^verbatim>\<open>findIndex\<close> gives \<open>-1\<close>, \<^verbatim>\<open>Math.max(1, -1)\<close> is 1, and the test for \<open>-1\<close> that
  follows sees 1. Five coinciding vertices with a reported distance of 1000 m have midpoint
  index 2 and split index 1.\<close>

lemma splitIdx_fallback_unreached:
  "findIndex (\<lambda>v. v \<ge> totalGeomMeters [(0, 0), (0, 0), (0, 0), (0, 0), (0, 0)]
        \<lparr>summary_distance = Some 1000, summary_duration = None, ascent = None, descent = None\<rparr> / 2)
     (cumulative [(0, 0), (0, 0), (0, 0), (0, 0), (0, 0)]) = - 1
   \<and> splitIdx [(0, 0), (0, 0), (0, 0), (0, 0), (0, 0)]
        \<lparr>summary_distance = Some 1000, summary_duration = None, ascent = None, descent = None\<rparr> = 1"
  by (simp add: splitIdx_def totalGeomMeters_def cumulative_def haversine_same findIndex_def
        opt_or_def js_or_def)

text \<open>
  C10. The split index is at least 1 on every geometry, so on a geometry of at least two
  vertices the day-1 route of a cycling trip starts with the first two vertices, also when
  the first vertex alone reaches half the total length.
\<close>

theorem splitIdx_clamped:
  "1 \<le> splitIdx coords ps \<and>
   (\<forall>c0 c1 rest. coords = c0 # c1 # rest \<longrightarrow>
      take 2 (dr_points (dailyRoutes (build_route \<lparr>geometry = coords, properties = ps\<rparr> ''cycling'') ! 0)) =
        [\<lparr>lat = snd c0, lng = fst c0, day = 1, order = 0\<rparr>,
         \<lparr>lat = snd c1, lng = fst c1, day = 1, order = 1\<rparr>])"
proof (intro conjI allI impI)
  show "1 \<le> splitIdx coords ps" by (rule splitIdx_ge_1)
next
  fix c0 c1 rest
  assume c: "coords = c0 # c1 # rest"
  have sp: "1 \<le> splitIdx coords ps" by (rule splitIdx_ge_1)
  have "dr_points (dailyRoutes (build_route \<lparr>geometry = coords, properties = ps\<rparr> ''cycling'') ! 0)
      = filter (\<lambda>p. day p = 1) (points_from ''cycling'' (splitIdx coords ps) 0 coords)"
    by (simp add: build_route_def Let_def)
  also have "\<dots> = \<lparr>lat = snd c0, lng = fst c0, day = 1, order = 0\<rparr> #
       \<lparr>lat = snd c1, lng = fst c1, day = 1, order = 1\<rparr> #
       filter (\<lambda>p. day p = 1) (points_from ''cycling'' (splitIdx coords ps) 2 rest)"
    using sp unfolding c [symmetric] by (simp add: c numeral_2_eq_2)
  finally show "take 2 (dr_points (dailyRoutes (build_route \<lparr>geometry = coords, properties = ps\<rparr> ''cycling'') ! 0)) =
        [\<lparr>lat = snd c0, lng = fst c0, day = 1, order = 0\<rparr>,
         \<lparr>lat = snd c1, lng = fst c1, day = 1, order = 1\<rparr>]"
    by simp
qed

theorem splitIdx_clamped_witness:
  "cumulative [(0, 0), (0, 0)] ! 0 \<ge>
      totalGeomMeters [(0, 0), (0, 0)]
        \<lparr>summary_distance = None, summary_duration = None, ascent = None, descent = None\<rparr> / 2
   \<and> take 2 (dr_points (dailyRoutes (build_route \<lparr>geometry = [(0, 0), (0, 0)],
        properties = \<lparr>summary_distance = None, summary_duration = None, ascent = None, descent = None\<rparr>\<rparr>
        ''cycling'') ! 0)) =
        [\<lparr>lat = 0, lng = 0, day = 1, order = 0\<rparr>, \<lparr>lat = 0, lng = 0, day = 1, order = 1\<rparr>]"
  using splitIdx_clamped [of "[(0, 0), (0, 0)]"
      "\<lparr>summary_distance = None, summary_duration = None, ascent = None, descent = None\<rparr>"]
  by (simp add: totalGeomMeters_def cumulative_def haversine_same opt_or_def js_or_def)

section \<open>The proposer's parsing fallback and retries\<close>

lemma js_space_simps [simp]: "\<not> js_space lbrace" "\<not> js_space rbrace" "\<not> js_space rbracket"
  by (simp_all add: js_space_def lbrace_def rbrace_def rbracket_def)

lemma before_first:
  assumes "content = pre @ u" "c \<notin> set pre" "content = a @ c # v"
  shows "length pre \<le> length a"
proof (rule ccontr)
  assume "\<not> length pre \<le> length a"
  then have lt: "length a < length pre" by simp
  then have "pre ! length a = content ! length a" using assms(1) by (simp add: nth_append)
  also have "\<dots> = c" using assms(3) by simp
  finally have "c \<in> set pre" using lt by (metis nth_mem)
  with assms(2) show False by simp
qed

lemma after_last:
  assumes "content = u @ post" "c \<notin> set post" "content = v @ c # b"
  shows "length post \<le> length b"
proof -
  have "rev content = rev post @ rev u" using assms(1) by simp
  moreover have "c \<notin> set (rev post)" using assms(2) by simp
  moreover have "rev content = rev b @ c # rev v" using assms(3) by simp
  ultimately have "length (rev post) \<le> length (rev b)" by (rule before_first)
  then show ?thesis by simp
qed

lemma match_braces_Some_iff:
  "match_braces content = Some m \<longleftrightarrow>
     (\<exists>pre post. content = pre @ m @ post \<and> lbrace \<notin> set pre \<and> rbrace \<notin> set post \<and>
        m \<noteq> [] \<and> hd m = lbrace \<and> last m = rbrace)"
proof
  assume some: "match_braces content = Some m"
  define from_open where "from_open = dropWhile (\<lambda>c. c \<noteq> lbrace) content"
  define pre where "pre = takeWhile (\<lambda>c. c \<noteq> lbrace) content"
  define post where "post = rev (takeWhile (\<lambda>c. c \<noteq> rbrace) (rev from_open))"
  from some have m: "m = rev (dropWhile (\<lambda>c. c \<noteq> rbrace) (rev from_open))" and ne: "m \<noteq> []"
    by (auto simp: match_braces_def Let_def from_open_def split: if_splits)
  have c1: "content = pre @ from_open" by (simp add: pre_def from_open_def)
  have "m @ post = rev (takeWhile (\<lambda>c. c \<noteq> rbrace) (rev from_open) @
                          dropWhile (\<lambda>c. c \<noteq> rbrace) (rev from_open))"
    unfolding m post_def by (simp only: rev_append)
  also have "\<dots> = rev (rev from_open)" by (simp only: takeWhile_dropWhile_id)
  finally have c2: "from_open = m @ post" by simp
  have p1: "lbrace \<notin> set pre" unfolding pre_def by (auto dest: set_takeWhileD)
  have p2: "rbrace \<notin> set post" unfolding post_def by (auto dest: set_takeWhileD)
  have fo: "from_open \<noteq> []" using c2 ne by simp
  then have "hd from_open = lbrace" unfolding from_open_def using hd_dropWhile [of "\<lambda>c. c \<noteq> lbrace" content] by simp
  then have h: "hd m = lbrace" using c2 ne by simp
  have dne: "dropWhile (\<lambda>c. c \<noteq> rbrace) (rev from_open) \<noteq> []" using m ne by simp
  have "last m = hd (dropWhile (\<lambda>c. c \<noteq> rbrace) (rev from_open))"
    unfolding m using dne by (simp add: last_rev)
  also have "\<dots> = rbrace" using hd_dropWhile [OF dne] by simp
  finally have l: "last m = rbrace" .
  from c1 c2 p1 p2 ne h l show "\<exists>pre post. content = pre @ m @ post \<and> lbrace \<notin> set pre \<and> rbrace \<notin> set post \<and>
        m \<noteq> [] \<and> hd m = lbrace \<and> last m = rbrace" by blast
next
  assume "\<exists>pre post. content = pre @ m @ post \<and> lbrace \<notin> set pre \<and> rbrace \<notin> set post \<and>
        m \<noteq> [] \<and> hd m = lbrace \<and> last m = rbrace"
  then obtain pre post where c: "content = pre @ m @ post" and p1: "lbrace \<notin> set pre"
    and p2: "rbrace \<notin> set post" and ne: "m \<noteq> []" and h: "hd m = lbrace" and l: "last m = rbrace"
    by blast
  have "dropWhile (\<lambda>c. c \<noteq> lbrace) content = dropWhile (\<lambda>c. c \<noteq> lbrace) (m @ post)"
    unfolding c using p1 by (intro dropWhile_append2) auto
  also have "\<dots> = m @ post" using ne h by (cases m) simp_all
  finally have fo: "dropWhile (\<lambda>c. c \<noteq> lbrace) content = m @ post" .
  have "dropWhile (\<lambda>c. c \<noteq> rbrace) (rev (m @ post)) = dropWhile (\<lambda>c. c \<noteq> rbrace) (rev m)"
  proof -
    have "dropWhile (\<lambda>c. c \<noteq> rbrace) (rev post @ rev m) = dropWhile (\<lambda>c. c \<noteq> rbrace) (rev m)"
      using p2 by (intro dropWhile_append2) auto
    then show ?thesis by simp
  qed
  also have "\<dots> = rev m" using ne l by (cases "rev m") (simp_all add: hd_rev [symmetric])
  finally have "rev (dropWhile (\<lambda>c. c \<noteq> rbrace) (rev (m @ post))) = m" by simp
  then have r: "rev (dropWhile (\<lambda>c. c \<noteq> rbrace) (rev (dropWhile (\<lambda>c. c \<noteq> lbrace) content))) = m"
    by (simp only: fo)
  show "match_braces content = Some m"
    unfolding match_braces_def Let_def r using ne by simp
qed

lemma match_braces_largest:
  assumes c: "content = a @ x @ b" and ne: "x \<noteq> []" and h: "hd x = lbrace" and l: "last x = rbrace"
  shows "\<exists>m. match_braces content = Some m \<and> length x \<le> length m"
proof -
  obtain x' where x1: "x = lbrace # x'" using ne h by (cases x) auto
  obtain x'' where x2: "x = x'' @ [rbrace]" using ne l by (metis append_butlast_last_id)
  have ca: "content = a @ lbrace # (x' @ b)" using c x1 by simp
  have cb: "content = (a @ x'') @ rbrace # b" using c x2 by simp
  define pre where "pre = takeWhile (\<lambda>c. c \<noteq> lbrace) content"
  define from_open where "from_open = dropWhile (\<lambda>c. c \<noteq> lbrace) content"
  define post where "post = rev (takeWhile (\<lambda>c. c \<noteq> rbrace) (rev from_open))"
  define m where "m = rev (dropWhile (\<lambda>c. c \<noteq> rbrace) (rev from_open))"
  have c1: "content = pre @ from_open" by (simp add: pre_def from_open_def)
  have p1: "lbrace \<notin> set pre" unfolding pre_def by (auto dest: set_takeWhileD)
  have p2: "rbrace \<notin> set post" unfolding post_def by (auto dest: set_takeWhileD)
  have "m @ post = rev (takeWhile (\<lambda>c. c \<noteq> rbrace) (rev from_open) @
                          dropWhile (\<lambda>c. c \<noteq> rbrace) (rev from_open))"
    unfolding m_def post_def by (simp only: rev_append)
  also have "\<dots> = rev (rev from_open)" by (simp only: takeWhile_dropWhile_id)
  finally have c2: "from_open = m @ post" by simp
  have c3: "content = (pre @ m) @ post" using c1 c2 by simp
  have le1: "length pre \<le> length a" using c1 p1 ca by (rule before_first)
  have le2: "length post \<le> length b" using c3 p2 cb by (rule after_last)
  have "length content = length a + length x + length b" using c by simp
  moreover have "length content = length pre + length m + length post" using c3 by simp
  ultimately have len: "length x \<le> length m" using le1 le2 by simp
  then have "m \<noteq> []" using ne by auto
  then have "match_braces content = Some m"
    by (simp add: match_braces_def Let_def m_def from_open_def)
  with len show ?thesis by blast
qed

lemma match_braces_None_iff:
  "match_braces content = None \<longleftrightarrow>
     \<not> (\<exists>a x b. content = a @ x @ b \<and> x \<noteq> [] \<and> hd x = lbrace \<and> last x = rbrace)"
proof
  assume n: "match_braces content = None"
  show "\<not> (\<exists>a x b. content = a @ x @ b \<and> x \<noteq> [] \<and> hd x = lbrace \<and> last x = rbrace)"
  proof
    assume "\<exists>a x b. content = a @ x @ b \<and> x \<noteq> [] \<and> hd x = lbrace \<and> last x = rbrace"
    then obtain a x b where "content = a @ x @ b" "x \<noteq> []" "hd x = lbrace" "last x = rbrace"
      by blast
    from match_braces_largest [OF this] n show False by simp
  qed
next
  assume no: "\<not> (\<exists>a x b. content = a @ x @ b \<and> x \<noteq> [] \<and> hd x = lbrace \<and> last x = rbrace)"
  show "match_braces content = None"
  proof (cases "match_braces content")
    case None
    then show ?thesis .
  next
    case (Some m)
    then have "\<exists>pre post. content = pre @ m @ post \<and> m \<noteq> [] \<and> hd m = lbrace \<and> last m = rbrace"
      unfolding match_braces_Some_iff by blast
    with no show ?thesis by blast
  qed
qed

lemma trim_spec:
  "\<exists>l r. s = l @ trim s @ r \<and> (\<forall>u \<in> set l. js_space u) \<and> (\<forall>u \<in> set r. js_space u) \<and>
     (trim s \<noteq> [] \<longrightarrow> \<not> js_space (hd (trim s)) \<and> \<not> js_space (last (trim s)))"
proof -
  define l where "l = takeWhile js_space s"
  define t where "t = dropWhile js_space s"
  define r where "r = rev (takeWhile js_space (rev t))"
  have tr: "trim s = rev (dropWhile js_space (rev t))" by (simp add: trim_def t_def)
  have "trim s @ r = rev (takeWhile js_space (rev t) @ dropWhile js_space (rev t))"
    unfolding tr r_def by (simp only: rev_append)
  also have "\<dots> = rev (rev t)" by (simp only: takeWhile_dropWhile_id)
  finally have t2: "t = trim s @ r" by simp
  have "s = l @ t" by (simp add: l_def t_def)
  then have s1: "s = l @ trim s @ r" using t2 by simp
  have a: "\<forall>u \<in> set l. js_space u" unfolding l_def by (auto dest: set_takeWhileD)
  have b: "\<forall>u \<in> set r. js_space u" unfolding r_def by (auto dest: set_takeWhileD)
  have c: "\<not> js_space (hd (trim s)) \<and> \<not> js_space (last (trim s))" if ne: "trim s \<noteq> []"
  proof
    from ne have tne: "t \<noteq> []" using t2 by auto
    then have "\<not> js_space (hd t)" unfolding t_def using hd_dropWhile [of js_space s] by simp
    then show "\<not> js_space (hd (trim s))" using t2 ne by simp
    from ne have dne: "dropWhile js_space (rev t) \<noteq> []" by (simp add: tr)
    have "last (trim s) = hd (dropWhile js_space (rev t))"
      unfolding tr using dne by (simp add: last_rev)
    then show "\<not> js_space (last (trim s))" using hd_dropWhile [OF dne] by simp
  qed
  from s1 a b c show ?thesis by blast
qed

lemma remove_with_space_none:
  assumes "\<forall>p. take (length lit) (drop p s) \<noteq> lit"
  shows "remove_with_space lit s = s"
  using assms
proof (induction s)
  case Nil
  then show ?case by (simp add: remove_with_space.simps)
next
  case (Cons c cs)
  from Cons.prems have n0: "take (length lit) (c # cs) \<noteq> lit" by (metis drop0)
  have "\<forall>p. take (length lit) (drop p cs) \<noteq> lit"
  proof
    fix p
    from Cons.prems have "take (length lit) (drop (Suc p) (c # cs)) \<noteq> lit" by blast
    then show "take (length lit) (drop p cs) \<noteq> lit" by simp
  qed
  then have "remove_with_space lit cs = cs" by (rule Cons.IH)
  then show ?case using n0 by (simp add: remove_with_space.simps)
qed

lemma dropWhile_spaces:
  assumes "\<forall>u \<in> set ws. js_space u" "rest = [] \<or> \<not> js_space (hd rest)"
  shows "dropWhile js_space (ws @ rest) = rest"
proof -
  have "dropWhile js_space (ws @ rest) = dropWhile js_space rest"
    using assms(1) by (intro dropWhile_append2) auto
  also have "\<dots> = rest" using assms(2) by (cases rest) auto
  finally show ?thesis .
qed

lemma remove_with_space_first:
  assumes "lit \<noteq> []" "s = pre @ lit @ ws @ rest"
    and "\<forall>p < length pre. take (length lit) (drop p s) \<noteq> lit"
    and "\<forall>u \<in> set ws. js_space u" "rest = [] \<or> \<not> js_space (hd rest)"
  shows "remove_with_space lit s = pre @ remove_with_space lit rest"
  using assms(2,3)
proof (induction pre arbitrary: s)
  case Nil
  then have s: "s = lit @ ws @ rest" by simp
  obtain l ls where lit: "lit = l # ls" using assms(1) by (cases lit) auto
  obtain c cs where cs: "s = c # cs" using s lit by simp
  have t: "take (length lit) (c # cs) = lit" using s cs by simp
  have d: "drop (length lit) (c # cs) = ws @ rest" using s cs by simp
  have "remove_with_space lit (c # cs) = remove_with_space lit (dropWhile js_space (ws @ rest))"
    using assms(1) t d by (simp add: remove_with_space.simps)
  also have "\<dots> = remove_with_space lit rest"
    using dropWhile_spaces [OF assms(4,5)] by simp
  finally show ?case using cs by simp
next
  case (Cons c pre)
  then have s: "s = c # (pre @ lit @ ws @ rest)" by simp
  from Cons.prems(2) have n0: "take (length lit) s \<noteq> lit" by (metis drop0 length_greater_0_conv list.discI)
  have "\<forall>p < length pre. take (length lit) (drop p (pre @ lit @ ws @ rest)) \<noteq> lit"
  proof (intro allI impI)
    fix p
    assume "p < length pre"
    then have "Suc p < length (c # pre)" by simp
    with Cons.prems(2) have "take (length lit) (drop (Suc p) s) \<noteq> lit" by blast
    then show "take (length lit) (drop p (pre @ lit @ ws @ rest)) \<noteq> lit" using s by simp
  qed
  with Cons.IH [of "pre @ lit @ ws @ rest"]
  have "remove_with_space lit (pre @ lit @ ws @ rest) = pre @ remove_with_space lit rest" by simp
  then show ?case using n0 s by (simp add: remove_with_space.simps)
qed

lemma comma_match_here:
  assumes "c = comma" "dropWhile js_space cs \<noteq> []" "hd (dropWhile js_space cs) = cl"
  shows "\<exists>ws r. c # cs = comma # ws @ cl # r \<and> (\<forall>u \<in> set ws. js_space u)"
proof -
  have "cs = takeWhile js_space cs @ dropWhile js_space cs" by simp
  also have "dropWhile js_space cs = cl # tl (dropWhile js_space cs)"
    using assms(2,3) by (cases "dropWhile js_space cs") auto
  finally have "c # cs = comma # takeWhile js_space cs @ cl # tl (dropWhile js_space cs)"
    using assms(1) by simp
  moreover have "\<forall>u \<in> set (takeWhile js_space cs). js_space u" by (auto dest: set_takeWhileD)
  ultimately show ?thesis by blast
qed

lemma drop_trailing_comma_none:
  assumes "\<forall>p. \<not> (\<exists>ws r. drop p s = comma # ws @ cl # r \<and> (\<forall>u \<in> set ws. js_space u))"
  shows "drop_trailing_comma cl s = s"
  using assms
proof (induction s)
  case Nil
  then show ?case by (simp add: drop_trailing_comma.simps)
next
  case (Cons c cs)
  from Cons.prems have "\<not> (\<exists>ws r. drop 0 (c # cs) = comma # ws @ cl # r \<and> (\<forall>u \<in> set ws. js_space u))"
    by blast
  then have n0: "\<not> (c = comma \<and> dropWhile js_space cs \<noteq> [] \<and> hd (dropWhile js_space cs) = cl)"
    using comma_match_here [of c cs cl] by auto
  have "\<forall>p. \<not> (\<exists>ws r. drop p cs = comma # ws @ cl # r \<and> (\<forall>u \<in> set ws. js_space u))"
  proof
    fix p
    from Cons.prems
    have "\<not> (\<exists>ws r. drop (Suc p) (c # cs) = comma # ws @ cl # r \<and> (\<forall>u \<in> set ws. js_space u))"
      by blast
    then show "\<not> (\<exists>ws r. drop p cs = comma # ws @ cl # r \<and> (\<forall>u \<in> set ws. js_space u))" by simp
  qed
  then have ih: "drop_trailing_comma cl cs = cs" by (rule Cons.IH)
  have "drop_trailing_comma cl (c # cs) = c # drop_trailing_comma cl cs"
    by (subst drop_trailing_comma.simps, rule if_not_P, rule n0)
  then show ?case by (simp only: ih)
qed

lemma drop_trailing_comma_first:
  assumes "\<not> js_space cl" "s = pre @ comma # ws @ cl # rest" "\<forall>u \<in> set ws. js_space u"
    and "\<forall>p < length pre. \<not> (\<exists>ws' r. drop p s = comma # ws' @ cl # r \<and> (\<forall>u \<in> set ws'. js_space u))"
  shows "drop_trailing_comma cl s = pre @ cl # drop_trailing_comma cl rest"
  using assms(2,4)
proof (induction pre arbitrary: s)
  case Nil
  then have s: "s = comma # (ws @ cl # rest)" by simp
  have d: "dropWhile js_space (ws @ cl # rest) = cl # rest"
    using assms(1,3) by (intro dropWhile_spaces) auto
  show ?case unfolding s by (simp add: drop_trailing_comma.simps d)
next
  case (Cons c pre)
  then have s: "s = c # (pre @ comma # ws @ cl # rest)" by simp
  have "0 < length (c # pre)" by simp
  with Cons.prems(2)
  have "\<not> (\<exists>ws' r. drop 0 s = comma # ws' @ cl # r \<and> (\<forall>u \<in> set ws'. js_space u))" by blast
  then have n0: "\<not> (c = comma \<and> dropWhile js_space (pre @ comma # ws @ cl # rest) \<noteq> [] \<and>
        hd (dropWhile js_space (pre @ comma # ws @ cl # rest)) = cl)"
    using comma_match_here [of c "pre @ comma # ws @ cl # rest" cl] s by auto
  have "\<forall>p < length pre. \<not> (\<exists>ws' r. drop p (pre @ comma # ws @ cl # rest) = comma # ws' @ cl # r \<and>
          (\<forall>u \<in> set ws'. js_space u))"
  proof (intro allI impI)
    fix p
    assume "p < length pre"
    then have "Suc p < length (c # pre)" by simp
    with Cons.prems(2)
    have "\<not> (\<exists>ws' r. drop (Suc p) s = comma # ws' @ cl # r \<and> (\<forall>u \<in> set ws'. js_space u))" by blast
    then show "\<not> (\<exists>ws' r. drop p (pre @ comma # ws @ cl # rest) = comma # ws' @ cl # r \<and>
          (\<forall>u \<in> set ws'. js_space u))" using s by simp
  qed
  with Cons.IH [of "pre @ comma # ws @ cl # rest"]
  have ih: "drop_trailing_comma cl (pre @ comma # ws @ cl # rest) = pre @ cl # drop_trailing_comma cl rest"
    by simp
  have "drop_trailing_comma cl (c # (pre @ comma # ws @ cl # rest)) =
      c # drop_trailing_comma cl (pre @ comma # ws @ cl # rest)"
    by (subst drop_trailing_comma.simps, rule if_not_P, rule n0)
  then show ?case unfolding s by (simp only: ih append_Cons)
qed

lemma gai_loop_past: "gai_loop llm parse r 4 = ([], JNull)"
  by (subst gai_loop.simps) (simp add: maxRetries_def)

lemma gai_loop_step:
  assumes "attempt \<le> 3" "nxt = attempt + 1"
  shows "gai_loop llm parse r attempt =
     (case attempt_outcome llm parse attempt of
        (pevs, Some v) \<Rightarrow> (Generate attempt r # pevs, v)
      | (pevs, None) \<Rightarrow>
          (Generate attempt r # pevs @ (if attempt < 3 then [Wait 1000] else []) @
             fst (gai_loop llm parse r nxt),
           snd (gai_loop llm parse r nxt)))"
proof (cases "attempt = 3")
  case True
  then have n: "nxt = 4" using assms by simp
  show ?thesis
    unfolding n True
    by (subst gai_loop.simps)
       (simp add: gai_loop_past maxRetries_def retryDelay_def attempt_outcome_def Let_def
          split: llm_reply.splits prod.splits option.splits)
next
  case False
  then have lt: "attempt < 3" using assms by simp
  show ?thesis
    using lt assms(2)
    by (subst gai_loop.simps)
       (simp add: maxRetries_def retryDelay_def attempt_outcome_def Let_def
          split: llm_reply.splits prod.splits option.splits)
qed

lemma parse_methods_cases:
  "(parse content = Some v \<longrightarrow> parse_methods parse content = ([ParseJSON content], Some v))
   \<and> (parse content = None \<and> match_braces content = Some m \<and> parse m = Some v \<longrightarrow>
        parse_methods parse content = ([ParseJSON content, ParseJSON m], Some v))
   \<and> (parse content = None \<and> match_braces content = Some m \<and> parse m = None \<longrightarrow>
        parse_methods parse content =
          ([ParseJSON content, ParseJSON m, ParseJSON (fixedContent content)],
           parse (fixedContent content)))
   \<and> (parse content = None \<and> match_braces content = None \<longrightarrow>
        parse_methods parse content =
          ([ParseJSON content, ParseJSON (fixedContent content)], parse (fixedContent content)))"
  by (simp add: parse_methods_def Let_def)

text \<open>The text functions on examples.\<close>

lemma fixedContent_example:
  "fixedContent (fence @ units ''json {a:[1,2, ], } '' @ fence) = units ''{a:[1,2]} ''"
  by (simp add: fixedContent_def units_def fence_def backtick_def rbrace_def rbracket_def comma_def
        js_space_def remove_with_space.simps drop_trailing_comma.simps)

lemma fixedContent_no_break_space:
  "fixedContent (units ''[1,'' @ [0xA0] @ units '']'') = units ''[1]''"
  by (simp add: fixedContent_def units_def fence_def backtick_def rbrace_def rbracket_def comma_def
        js_space_def remove_with_space.simps drop_trailing_comma.simps)

lemma trim_example: "trim ([0xFEFF] @ units '' x {} y  '' @ [0xA0]) = units ''x {} y''"
  by (simp add: trim_def units_def js_space_def)

lemma match_braces_example: "match_braces (units ''x {a{}b} y}z'') = Some (units ''{a{}b} y}'')"
  by (simp add: match_braces_def units_def lbrace_def rbrace_def)

lemma match_braces_none_example: "match_braces (units ''x } { y'') = None"
  by (simp add: match_braces_def units_def lbrace_def rbrace_def)

lemma generateRouteWithAI_run:
  "generateRouteWithAI llm parse isRetry =
        (case attempt_outcome llm parse 1 of
           (p1, Some v1) \<Rightarrow> (Generate 1 isRetry # p1, v1)
         | (p1, None) \<Rightarrow>
             (case attempt_outcome llm parse 2 of
                (p2, Some v2) \<Rightarrow> (Generate 1 isRetry # p1 @ Wait 1000 # Generate 2 isRetry # p2, v2)
              | (p2, None) \<Rightarrow>
                  (case attempt_outcome llm parse 3 of
                     (p3, Some v3) \<Rightarrow>
                       (Generate 1 isRetry # p1 @ Wait 1000 # Generate 2 isRetry # p2 @
                        Wait 1000 # Generate 3 isRetry # p3, v3)
                   | (p3, None) \<Rightarrow>
                       (Generate 1 isRetry # p1 @ Wait 1000 # Generate 2 isRetry # p2 @
                        Wait 1000 # Generate 3 isRetry # p3, JNull))))"
proof -
  have l3: "gai_loop llm parse isRetry 3 =
      (case attempt_outcome llm parse 3 of
         (p3, Some v3) \<Rightarrow> (Generate 3 isRetry # p3, v3)
       | (p3, None) \<Rightarrow> (Generate 3 isRetry # p3, JNull))"
    by (subst gai_loop_step [where nxt = 4]) (simp_all add: gai_loop_past split: prod.splits option.splits)
  have l2: "gai_loop llm parse isRetry 2 =
      (case attempt_outcome llm parse 2 of
         (p2, Some v2) \<Rightarrow> (Generate 2 isRetry # p2, v2)
       | (p2, None) \<Rightarrow>
           (Generate 2 isRetry # p2 @ Wait 1000 # fst (gai_loop llm parse isRetry 3),
            snd (gai_loop llm parse isRetry 3)))"
    by (subst gai_loop_step [where nxt = 3]) (simp_all split: prod.splits option.splits)
  have l1: "gai_loop llm parse isRetry 1 =
      (case attempt_outcome llm parse 1 of
         (p1, Some v1) \<Rightarrow> (Generate 1 isRetry # p1, v1)
       | (p1, None) \<Rightarrow>
           (Generate 1 isRetry # p1 @ Wait 1000 # fst (gai_loop llm parse isRetry 2),
            snd (gai_loop llm parse isRetry 2)))"
    by (subst gai_loop_step [where nxt = 2]) (simp_all split: prod.splits option.splits)
  show ?thesis
    unfolding generateRouteWithAI_def l1 l2 l3
    by (simp split: prod.splits option.splits)
qed

text \<open>
  C9. A run of the proposer is at most three passes, each followed by a wait of 1000 ms
  when it returns nothing and another pass remains; the run returns the value of the first
  pass that returns one, and \<^verbatim>\<open>null\<close> after three that return none. Within a pass the whole
  trimmed text is parsed first; then, when there is one, the largest part of the text that
  starts with an opening brace and ends with a closing brace (from the first opening brace
  to the last closing brace); then the text from which every code fence followed by
  \<^verbatim>\<open>json\<close>, then every other code fence, each with the white space after it, has been
  removed and in which every comma followed by white space and a closing brace, then every
  such comma before a closing bracket, has been dropped; the value of the first parse that
  succeeds is returned. White space is the white space of JavaScript, the no-break space
  and the other non-ASCII spaces included.
\<close>

theorem proposer_fallback_and_retries:
  "generateRouteWithAI llm parse isRetry =
        (case attempt_outcome llm parse 1 of
           (p1, Some v1) \<Rightarrow> (Generate 1 isRetry # p1, v1)
         | (p1, None) \<Rightarrow>
             (case attempt_outcome llm parse 2 of
                (p2, Some v2) \<Rightarrow> (Generate 1 isRetry # p1 @ Wait 1000 # Generate 2 isRetry # p2, v2)
              | (p2, None) \<Rightarrow>
                  (case attempt_outcome llm parse 3 of
                     (p3, Some v3) \<Rightarrow>
                       (Generate 1 isRetry # p1 @ Wait 1000 # Generate 2 isRetry # p2 @
                        Wait 1000 # Generate 3 isRetry # p3, v3)
                   | (p3, None) \<Rightarrow>
                       (Generate 1 isRetry # p1 @ Wait 1000 # Generate 2 isRetry # p2 @
                        Wait 1000 # Generate 3 isRetry # p3, JNull))))
   \<and> ((parse content = Some v \<longrightarrow> parse_methods parse content = ([ParseJSON content], Some v))
      \<and> (parse content = None \<and> match_braces content = Some m \<and> parse m = Some v \<longrightarrow>
           parse_methods parse content = ([ParseJSON content, ParseJSON m], Some v))
      \<and> (parse content = None \<and> match_braces content = Some m \<and> parse m = None \<longrightarrow>
           parse_methods parse content =
             ([ParseJSON content, ParseJSON m, ParseJSON (fixedContent content)],
              parse (fixedContent content)))
      \<and> (parse content = None \<and> match_braces content = None \<longrightarrow>
           parse_methods parse content =
             ([ParseJSON content, ParseJSON (fixedContent content)], parse (fixedContent content))))
   \<and> (match_braces content = Some m \<longleftrightarrow>
        (\<exists>pre post. content = pre @ m @ post \<and> lbrace \<notin> set pre \<and> rbrace \<notin> set post \<and>
           m \<noteq> [] \<and> hd m = lbrace \<and> last m = rbrace))
   \<and> (\<forall>a x b. content = a @ x @ b \<and> x \<noteq> [] \<and> hd x = lbrace \<and> last x = rbrace \<longrightarrow>
        (\<exists>m'. match_braces content = Some m' \<and> length x \<le> length m'))
   \<and> fixedContent content =
        drop_trailing_comma rbracket
          (drop_trailing_comma rbrace
             (remove_with_space fence (remove_with_space (fence @ units ''json'') content)))
   \<and> (\<forall>lit s. lit \<noteq> [] \<longrightarrow>
        ((\<forall>p. take (length lit) (drop p s) \<noteq> lit) \<longrightarrow> remove_with_space lit s = s) \<and>
        (\<forall>pre ws rest.
            s = pre @ lit @ ws @ rest \<and> (\<forall>p < length pre. take (length lit) (drop p s) \<noteq> lit) \<and>
            (\<forall>u \<in> set ws. js_space u) \<and> (rest = [] \<or> \<not> js_space (hd rest)) \<longrightarrow>
            remove_with_space lit s = pre @ remove_with_space lit rest))
   \<and> (\<forall>cl s. \<not> js_space cl \<longrightarrow>
        ((\<forall>p. \<not> (\<exists>ws r. drop p s = comma # ws @ cl # r \<and> (\<forall>u \<in> set ws. js_space u))) \<longrightarrow>
           drop_trailing_comma cl s = s) \<and>
        (\<forall>pre ws rest.
            s = pre @ comma # ws @ cl # rest \<and> (\<forall>u \<in> set ws. js_space u) \<and>
            (\<forall>p < length pre. \<not> (\<exists>ws' r. drop p s = comma # ws' @ cl # r \<and>
                                     (\<forall>u \<in> set ws'. js_space u))) \<longrightarrow>
            drop_trailing_comma cl s = pre @ cl # drop_trailing_comma cl rest))
   \<and> (\<forall>s. \<exists>l r. s = l @ trim s @ r \<and> (\<forall>u \<in> set l. js_space u) \<and> (\<forall>u \<in> set r. js_space u) \<and>
        (trim s \<noteq> [] \<longrightarrow> \<not> js_space (hd (trim s)) \<and> \<not> js_space (last (trim s))))
   \<and> (\<forall>u. js_space u \<longleftrightarrow>
        u \<in> {0x09, 0x0A, 0x0B, 0x0C, 0x0D, 0x20, 0xA0, 0x1680, 0x2028, 0x2029, 0x202F, 0x205F,
             0x3000, 0xFEFF} \<or> (0x2000 \<le> u \<and> u \<le> 0x200A))
   \<and> lbrace = of_char (CHR ''{'') \<and> rbrace = of_char (CHR ''}'') \<and> rbracket = of_char (CHR '']'')
   \<and> comma = of_char (CHR '','') \<and> fence = [0x60, 0x60, 0x60]"
proof (intro conjI)
  show "generateRouteWithAI llm parse isRetry =
        (case attempt_outcome llm parse 1 of
           (p1, Some v1) \<Rightarrow> (Generate 1 isRetry # p1, v1)
         | (p1, None) \<Rightarrow>
             (case attempt_outcome llm parse 2 of
                (p2, Some v2) \<Rightarrow> (Generate 1 isRetry # p1 @ Wait 1000 # Generate 2 isRetry # p2, v2)
              | (p2, None) \<Rightarrow>
                  (case attempt_outcome llm parse 3 of
                     (p3, Some v3) \<Rightarrow>
                       (Generate 1 isRetry # p1 @ Wait 1000 # Generate 2 isRetry # p2 @
                        Wait 1000 # Generate 3 isRetry # p3, v3)
                   | (p3, None) \<Rightarrow>
                       (Generate 1 isRetry # p1 @ Wait 1000 # Generate 2 isRetry # p2 @
                        Wait 1000 # Generate 3 isRetry # p3, JNull))))"
    by (rule generateRouteWithAI_run)
  show "parse content = Some v \<longrightarrow> parse_methods parse content = ([ParseJSON content], Some v)"
    and "parse content = None \<and> match_braces content = Some m \<and> parse m = Some v \<longrightarrow>
           parse_methods parse content = ([ParseJSON content, ParseJSON m], Some v)"
    and "parse content = None \<and> match_braces content = Some m \<and> parse m = None \<longrightarrow>
           parse_methods parse content =
             ([ParseJSON content, ParseJSON m, ParseJSON (fixedContent content)],
              parse (fixedContent content))"
    and "parse content = None \<and> match_braces content = None \<longrightarrow>
           parse_methods parse content =
             ([ParseJSON content, ParseJSON (fixedContent content)], parse (fixedContent content))"
    using parse_methods_cases [of parse content v m] by blast+
  show "match_braces content = Some m \<longleftrightarrow>
        (\<exists>pre post. content = pre @ m @ post \<and> lbrace \<notin> set pre \<and> rbrace \<notin> set post \<and>
           m \<noteq> [] \<and> hd m = lbrace \<and> last m = rbrace)"
    by (rule match_braces_Some_iff)
  show "\<forall>a x b. content = a @ x @ b \<and> x \<noteq> [] \<and> hd x = lbrace \<and> last x = rbrace \<longrightarrow>
        (\<exists>m'. match_braces content = Some m' \<and> length x \<le> length m')"
    using match_braces_largest by blast
  show "fixedContent content =
        drop_trailing_comma rbracket
          (drop_trailing_comma rbrace
             (remove_with_space fence (remove_with_space (fence @ units ''json'') content)))"
    by (rule fixedContent_def)
  show "\<forall>lit s. lit \<noteq> [] \<longrightarrow>
        ((\<forall>p. take (length lit) (drop p s) \<noteq> lit) \<longrightarrow> remove_with_space lit s = s) \<and>
        (\<forall>pre ws rest.
            s = pre @ lit @ ws @ rest \<and> (\<forall>p < length pre. take (length lit) (drop p s) \<noteq> lit) \<and>
            (\<forall>u \<in> set ws. js_space u) \<and> (rest = [] \<or> \<not> js_space (hd rest)) \<longrightarrow>
            remove_with_space lit s = pre @ remove_with_space lit rest)"
  proof (intro allI impI conjI)
    fix lit s :: jstext
    assume "\<forall>p. take (length lit) (drop p s) \<noteq> lit"
    then show "remove_with_space lit s = s" by (rule remove_with_space_none)
  next
    fix lit s pre ws rest :: jstext
    assume "lit \<noteq> []"
      and "s = pre @ lit @ ws @ rest \<and> (\<forall>p < length pre. take (length lit) (drop p s) \<noteq> lit) \<and>
            (\<forall>u \<in> set ws. js_space u) \<and> (rest = [] \<or> \<not> js_space (hd rest))"
    then show "remove_with_space lit s = pre @ remove_with_space lit rest"
      using remove_with_space_first [of lit s pre ws rest] by blast
  qed
  show "\<forall>cl s. \<not> js_space cl \<longrightarrow>
        ((\<forall>p. \<not> (\<exists>ws r. drop p s = comma # ws @ cl # r \<and> (\<forall>u \<in> set ws. js_space u))) \<longrightarrow>
           drop_trailing_comma cl s = s) \<and>
        (\<forall>pre ws rest.
            s = pre @ comma # ws @ cl # rest \<and> (\<forall>u \<in> set ws. js_space u) \<and>
            (\<forall>p < length pre. \<not> (\<exists>ws' r. drop p s = comma # ws' @ cl # r \<and>
                                     (\<forall>u \<in> set ws'. js_space u))) \<longrightarrow>
            drop_trailing_comma cl s = pre @ cl # drop_trailing_comma cl rest)"
  proof (intro allI impI conjI)
    fix cl :: nat and s :: jstext
    assume "\<forall>p. \<not> (\<exists>ws r. drop p s = comma # ws @ cl # r \<and> (\<forall>u \<in> set ws. js_space u))"
    then show "drop_trailing_comma cl s = s" by (rule drop_trailing_comma_none)
  next
    fix cl :: nat and s pre ws rest :: jstext
    assume "\<not> js_space cl"
      and "s = pre @ comma # ws @ cl # rest \<and> (\<forall>u \<in> set ws. js_space u) \<and>
            (\<forall>p < length pre. \<not> (\<exists>ws' r. drop p s = comma # ws' @ cl # r \<and>
                                     (\<forall>u \<in> set ws'. js_space u)))"
    then show "drop_trailing_comma cl s = pre @ cl # drop_trailing_comma cl rest"
      using drop_trailing_comma_first [of cl s pre ws rest] by blast
  qed
  show "\<forall>s. \<exists>l r. s = l @ trim s @ r \<and> (\<forall>u \<in> set l. js_space u) \<and> (\<forall>u \<in> set r. js_space u) \<and>
        (trim s \<noteq> [] \<longrightarrow> \<not> js_space (hd (trim s)) \<and> \<not> js_space (last (trim s)))"
    using trim_spec by blast
  show "\<forall>u. js_space u \<longleftrightarrow>
        u \<in> {0x09, 0x0A, 0x0B, 0x0C, 0x0D, 0x20, 0xA0, 0x1680, 0x2028, 0x2029, 0x202F, 0x205F,
             0x3000, 0xFEFF} \<or> (0x2000 \<le> u \<and> u \<le> 0x200A)"
    by (simp add: js_space_def)
  show "lbrace = of_char (CHR ''{'')" "rbrace = of_char (CHR ''}'')" "rbracket = of_char (CHR '']'')"
    "comma = of_char (CHR '','')" "fence = [0x60, 0x60, 0x60]"
    by (simp_all add: lbrace_def rbrace_def rbracket_def comma_def fence_def backtick_def)
qed

theorem proposer_fallback_and_retries_witness:
  "(\<lambda>s. if s = units ''{}'' then Some (JObj []) else None) (units ''sure: {} ok'') = None
   \<and> match_braces (units ''sure: {} ok'') = Some (units ''{}'')
   \<and> parse_methods (\<lambda>s. if s = units ''{}'' then Some (JObj []) else None) (units ''sure: {} ok'') =
        ([ParseJSON (units ''sure: {} ok''), ParseJSON (units ''{}'')], Some (JObj []))
   \<and> generateRouteWithAI
        (\<lambda>k. if k = 1 then LlmThrows else LlmContent (Some (units '' sure: {} ok '')))
        (\<lambda>s. if s = units ''{}'' then Some (JObj []) else None) True =
      ([Generate 1 True, Wait 1000, Generate 2 True, ParseJSON (units ''sure: {} ok''),
        ParseJSON (units ''{}'')], JObj [])"
proof -
  note t = proposer_fallback_and_retries
    [of "\<lambda>k. if k = 1 then LlmThrows else LlmContent (Some (units '' sure: {} ok ''))"
        "\<lambda>s. if s = units ''{}'' then Some (JObj []) else None" True
        "units ''sure: {} ok''" "JObj []" "units ''{}''"]
  have m: "match_braces (units ''sure: {} ok'') = Some (units ''{}'')"
    by (simp add: match_braces_def units_def lbrace_def rbrace_def)
  have p: "(\<lambda>s. if s = units ''{}'' then Some (JObj []) else None) (units ''sure: {} ok'') = None"
    by (simp add: units_def)
  have tr: "trim (units '' sure: {} ok '') = units ''sure: {} ok''"
    by (simp add: trim_def units_def js_space_def)
  from t [THEN conjunct2, THEN conjunct1, THEN conjunct2, THEN conjunct1] m p
  have pm: "parse_methods (\<lambda>s. if s = units ''{}'' then Some (JObj []) else None) (units ''sure: {} ok'') =
        ([ParseJSON (units ''sure: {} ok''), ParseJSON (units ''{}'')], Some (JObj []))"
    by simp
  have o1: "attempt_outcome (\<lambda>k. if k = 1 then LlmThrows else LlmContent (Some (units '' sure: {} ok '')))
        (\<lambda>s. if s = units ''{}'' then Some (JObj []) else None) 1 = ([], None)"
    by (simp add: attempt_outcome_def)
  have ne: "units ''sure: {} ok'' \<noteq> []" by (simp add: units_def)
  have o2: "attempt_outcome (\<lambda>k. if k = 1 then LlmThrows else LlmContent (Some (units '' sure: {} ok '')))
        (\<lambda>s. if s = units ''{}'' then Some (JObj []) else None) 2 =
        ([ParseJSON (units ''sure: {} ok''), ParseJSON (units ''{}'')], Some (JObj []))"
    using ne by (simp add: attempt_outcome_def tr pm Let_def)
  from t [THEN conjunct1, unfolded o1 o2]
  have run: "generateRouteWithAI
        (\<lambda>k. if k = 1 then LlmThrows else LlmContent (Some (units '' sure: {} ok '')))
        (\<lambda>s. if s = units ''{}'' then Some (JObj []) else None) True =
      ([Generate 1 True, Wait 1000, Generate 2 True, ParseJSON (units ''sure: {} ok''),
        ParseJSON (units ''{}'')], JObj [])"
    by simp
  from p m pm run show ?thesis by blast
qed

end
